theory Spec2Isabelle
  imports Main
begin

text \<open>
  A static analyzer for C source files: the variable detector and the library detector
  of the AST path, the format check of the heuristic engine, and the filter of the
  report. The C parser is not part of the model: what it extracts from a file (the
  declarations, the usages and dereferences of a name, the calls, the include
  directives) is a parameter of the functions that consume it, in the order the
  parser returns it.
\<close>

section \<open>Strings as the detectors use them\<close>

text \<open>
  The detectors work on JavaScript strings. They are modelled as \<^typ>\<open>string\<close>, a list of
  8-bit characters, which is exact for ASCII source text: an index is a position in the
  list, \<open>slice\<close> is \<^const>\<open>drop\<close>, and the white space that \<open>trim\<close> and the regular
  expression class \<open>\s\<close> remove is tab, line feed, vertical tab, form feed, carriage
  return and space.
\<close>

definition isWhitespace :: "char \<Rightarrow> bool" where
  "isWhitespace c = (c \<in> set [CHR 0x09, CHR 0x0A, CHR 0x0B, CHR 0x0C, CHR 0x0D, CHR '' ''])"

definition trimStart :: "string \<Rightarrow> string" where
  "trimStart s = dropWhile isWhitespace s"

definition trim :: "string \<Rightarrow> string" where
  "trim s = rev (dropWhile isWhitespace (rev (dropWhile isWhitespace s)))"

fun startsWith :: "string \<Rightarrow> string \<Rightarrow> bool" where
  "startsWith s [] = True"
| "startsWith [] (p # ps) = False"
| "startsWith (c # cs) (p # ps) = (c = p \<and> startsWith cs ps)"

text \<open>\<open>s.includes(sub)\<close>: \<open>sub\<close> occurs somewhere in \<open>s\<close>.\<close>

fun includesStr :: "string \<Rightarrow> string \<Rightarrow> bool" where
  "includesStr [] sub = (sub = [])"
| "includesStr (c # cs) sub = (startsWith (c # cs) sub \<or> includesStr cs sub)"

text \<open>
  \<open>s.indexOf(sub, from)\<close>: the least index \<open>k \<ge> from\<close> at which \<open>sub\<close> occurs, or \<open>-1\<close>
  (here \<open>None\<close>). \<open>indexOfAt\<close> searches the rest of the string, which starts at index \<open>k\<close>;
  a start beyond the end is clamped to the length.
\<close>

fun indexOfAt :: "string \<Rightarrow> string \<Rightarrow> nat \<Rightarrow> nat option" where
  "indexOfAt [] sub k = (if sub = [] then Some k else None)"
| "indexOfAt (c # cs) sub k =
     (if startsWith (c # cs) sub then Some k else indexOfAt cs sub (Suc k))"

definition indexOf :: "string \<Rightarrow> string \<Rightarrow> nat \<Rightarrow> nat option" where
  "indexOf s sub from = indexOfAt (drop from s) sub (min from (length s))"

text \<open>
  \<open>sourceLines[i]\<close>: the line, or \<open>undefined\<close> (here \<open>None\<close>) when \<open>i\<close> is not an index of
  the array.
\<close>

definition lineAt :: "string list \<Rightarrow> nat \<Rightarrow> string option" where
  "lineAt sourceLines i = (if i < length sourceLines then Some (sourceLines ! i) else None)"

text \<open>\<open>sourceLines[i] || ''\<close>, the code line attached to an issue.\<close>

definition codeLineAt :: "string list \<Rightarrow> nat \<Rightarrow> string" where
  "codeLineAt sourceLines i = (case lineAt sourceLines i of None \<Rightarrow> [] | Some l \<Rightarrow> l)"

text \<open>
  A method call on \<open>undefined\<close> throws a \<open>TypeError\<close>; so does a call of a property that
  is not a function.
\<close>

datatype error = TypeError

section \<open>Data model\<close>

text \<open>Positions are 0-based, as the parser reports them; the line of an issue is 1-based.\<close>

record Position =
  row :: nat
  column :: nat

record VariableDeclaration =
  name :: string
  vtype :: string
  isPointer :: bool
  isInitialized :: bool
  isParameter :: bool
  scope :: string
  position :: Position

text \<open>
  The message of an issue is a template filled with names. The templates are Chinese
  text in the source; the model keeps which template it is and what is filled in:
  \<^item> \<open>MsgUninitialized n\<close>: variable \<open>n\<close> is used before it is initialized;
  \<^item> \<open>MsgWildPointer n\<close>: potential wild pointer dereference, pointer \<open>n\<close> is not
    initialized;
  \<^item> \<open>MsgNullPointer n\<close>: potential null pointer dereference, pointer \<open>n\<close> may be NULL;
  \<^item> \<open>MsgHeader f hs\<close>: function \<open>f\<close> needs one of the headers \<open>hs\<close>, which the source
    joins with the word "or";
  \<^item> \<open>MsgHeaderSpelling h s\<close>: suspicious header name \<open>h\<close>, followed by "did you mean
    \<open>s'\<close>?" when \<open>s = Some s'\<close>;
  \<^item> \<open>MsgFormatTooFew f\<close>, \<open>MsgFormatTooMany f\<close>: \<open>f\<close> (\<open>scanf\<close> or \<open>printf\<close>) has fewer, or
    more, arguments than format placeholders;
  \<^item> \<open>MsgScanfAddress\<close>: a \<open>scanf\<close> argument should be an address.
\<close>

datatype message =
    MsgUninitialized string
  | MsgWildPointer string
  | MsgNullPointer string
  | MsgHeader string "string list"
  | MsgHeaderSpelling string "string option"
  | MsgFormatTooFew string
  | MsgFormatTooMany string
  | MsgScanfAddress

text \<open>
  An issue as it is reported (\<open>Issue\<close>), and as the AST detectors build it, with a column
  and a severity (0 error, 1 warning, 2 information).
\<close>

record Issue =
  file' :: string
  line :: nat
  category :: string
  message :: message
  codeLine :: string

record ASTIssue = Issue +
  issueColumn :: nat
  severity :: nat

section \<open>The variable detector\<close>

subsection \<open>\<open>isAssignmentTarget\<close>\<close>

text \<open>
  The test \<open>/^(=|[\+\-\*\/\%]?=)/\<close> on the text after the variable: it starts with \<open>=\<close>,
  or with one of \<open>+ - * / %\<close> and then \<open>=\<close>.
\<close>

fun startsWithAssignment :: "string \<Rightarrow> bool" where
  "startsWithAssignment [] = False"
| "startsWithAssignment [c] = (c = CHR ''='')"
| "startsWithAssignment (c # d # s) =
     (c = CHR ''='' \<or> (c \<in> set ''+-*/%'' \<and> d = CHR ''=''))"

text \<open>
  \<open>line.trim()\<close> is evaluated first, so an undefined line throws. The variable is looked
  up from the usage's column on; what follows it is trimmed and tested.
\<close>

definition isAssignmentTarget :: "string option \<Rightarrow> string \<Rightarrow> nat \<Rightarrow> error + bool" where
  "isAssignmentTarget lineText variableName fromColumn =
     (case lineText of
        None \<Rightarrow> Inl TypeError
      | Some l \<Rightarrow>
          (case indexOf l variableName fromColumn of
             None \<Rightarrow> Inr False
           | Some varIndex \<Rightarrow>
               Inr (startsWithAssignment (trim (drop (varIndex + length variableName) l)))))"

subsection \<open>The write of the specification\<close>



subsection \<open>\<open>isStructField\<close>\<close>

text \<open>
  The loop \<open>for (i = max(0, lineNumber - 5); i < lineNumber; i++)\<close> over the indices it
  visits; \<open>sourceLines[i].trim()\<close> throws on an undefined line.
\<close>

fun isStructFieldLoop :: "string list \<Rightarrow> nat list \<Rightarrow> error + bool" where
  "isStructFieldLoop sourceLines [] = Inr False"
| "isStructFieldLoop sourceLines (i # is) =
     (case lineAt sourceLines i of
        None \<Rightarrow> Inl TypeError
      | Some l \<Rightarrow>
          if includesStr (trim l) ''typedef struct'' \<or> includesStr (trim l) ''struct ''
          then Inr True
          else isStructFieldLoop sourceLines is)"

definition isStructField :: "string list \<Rightarrow> nat \<Rightarrow> error + bool" where
  "isStructField sourceLines lineNumber =
     isStructFieldLoop sourceLines [lineNumber - 5 ..< lineNumber]"

subsection \<open>\<open>checkVariableUsage\<close>\<close>

definition uninitializedIssue :: "string \<Rightarrow> string list \<Rightarrow> VariableDeclaration \<Rightarrow> Position \<Rightarrow> ASTIssue" where
  "uninitializedIssue filePath sourceLines variable usage =
     \<lparr> file' = filePath, line = row usage + 1, category = ''Uninitialized'',
       message = MsgUninitialized (name variable),
       codeLine = codeLineAt sourceLines (row usage),
       issueColumn = column usage, severity = 1 \<rparr>"

definition wildPointerIssue :: "string \<Rightarrow> string list \<Rightarrow> VariableDeclaration \<Rightarrow> Position \<Rightarrow> ASTIssue" where
  "wildPointerIssue filePath sourceLines variable deref =
     \<lparr> file' = filePath, line = row deref + 1, category = ''NullPointer'',
       message = MsgWildPointer (name variable),
       codeLine = codeLineAt sourceLines (row deref),
       issueColumn = column deref, severity = 0 \<rparr>"

text \<open>
  The first loop, over the usages the parser found for the variable's name, in the
  parser's order. The state is the declaration (its \<open>isInitialized\<close> flag is assigned)
  and the issues pushed so far.
\<close>

fun usageLoop :: "string list \<Rightarrow> string \<Rightarrow> Position list \<Rightarrow>
    VariableDeclaration \<times> ASTIssue list \<Rightarrow> error + (VariableDeclaration \<times> ASTIssue list)" where
  "usageLoop sourceLines filePath [] st = Inr st"
| "usageLoop sourceLines filePath (usage # usages) (variable, issues) =
     (if row usage = row (position variable)
      then usageLoop sourceLines filePath usages (variable, issues)
      else
        (case isAssignmentTarget (lineAt sourceLines (row usage)) (name variable) (column usage) of
           Inl e \<Rightarrow> Inl e
         | Inr True \<Rightarrow>
             usageLoop sourceLines filePath usages (variable\<lparr>isInitialized := True\<rparr>, issues)
         | Inr False \<Rightarrow>
             usageLoop sourceLines filePath usages
               (variable, issues @ [uninitializedIssue filePath sourceLines variable usage])))"

text \<open>The second loop, over the dereferences of the same name; it throws nowhere.\<close>

fun derefLoop :: "string list \<Rightarrow> string \<Rightarrow> Position list \<Rightarrow>
    VariableDeclaration \<Rightarrow> ASTIssue list \<Rightarrow> ASTIssue list" where
  "derefLoop sourceLines filePath [] variable issues = issues"
| "derefLoop sourceLines filePath (deref # derefs) variable issues =
     (if row deref = row (position variable)
      then derefLoop sourceLines filePath derefs variable issues
      else if isPointer variable \<and> \<not> isInitialized variable
      then derefLoop sourceLines filePath derefs variable
             (issues @ [wildPointerIssue filePath sourceLines variable deref])
      else derefLoop sourceLines filePath derefs variable issues)"

text \<open>
  \<open>usages\<close> and \<open>dereferences\<close> are what the parser's \<open>findVariableUsages\<close> and
  \<open>findPointerDereferences\<close> return for the variable's name. The result is the issue
  list together with the declaration as the call leaves it.
\<close>

definition checkVariableUsage :: "Position list \<Rightarrow> Position list \<Rightarrow> VariableDeclaration \<Rightarrow>
    string list \<Rightarrow> string \<Rightarrow> error + (ASTIssue list \<times> VariableDeclaration)" where
  "checkVariableUsage usages dereferences variable sourceLines filePath =
     (if isInitialized variable \<or> isParameter variable then Inr ([], variable)
      else
        (case isStructField sourceLines (row (position variable)) of
           Inl e \<Rightarrow> Inl e
         | Inr True \<Rightarrow> Inr ([], variable)
         | Inr False \<Rightarrow>
             (case usageLoop sourceLines filePath usages (variable, []) of
                Inl e \<Rightarrow> Inl e
              | Inr (variable', issues) \<Rightarrow>
                  Inr (derefLoop sourceLines filePath dereferences variable' issues, variable'))))"

subsection \<open>\<open>checkNullPointerDereference\<close>\<close>

text \<open>The regular expression classes \<open>\w\<close> and, after a word character, \<open>\b\<close>.\<close>

definition isWordChar :: "char \<Rightarrow> bool" where
  "isWordChar c =
     (c \<in> set ''abcdefghijklmnopqrstuvwxyzABCDEFGHIJKLMNOPQRSTUVWXYZ0123456789_'')"

fun wordEnds :: "string \<Rightarrow> bool" where
  "wordEnds [] = True"
| "wordEnds (c # cs) = (\<not> isWordChar c)"




definition nullPointerIssue :: "string \<Rightarrow> string list \<Rightarrow> VariableDeclaration \<Rightarrow> Position \<Rightarrow> ASTIssue" where
  "nullPointerIssue filePath sourceLines pointer deref =
     \<lparr> file' = filePath, line = row deref + 1, category = ''NullPointer'',
       message = MsgNullPointer (name pointer),
       codeLine = codeLineAt sourceLines (row deref),
       issueColumn = column deref, severity = 0 \<rparr>"

text \<open>The inner loop, over the dereferences of one pointer's name.\<close>

fun nullDerefLoop :: "string list \<Rightarrow> string \<Rightarrow> VariableDeclaration \<Rightarrow> Position list \<Rightarrow>
    ASTIssue list \<Rightarrow> ASTIssue list" where
  "nullDerefLoop sourceLines filePath pointer [] issues = issues"
| "nullDerefLoop sourceLines filePath pointer (deref # derefs) issues =
     (if row deref > row (position pointer)
      then nullDerefLoop sourceLines filePath pointer derefs
             (issues @ [nullPointerIssue filePath sourceLines pointer deref])
      else nullDerefLoop sourceLines filePath pointer derefs issues)"




section \<open>The library detector\<close>

record FunctionCall =
  callName :: string
  callPosition :: Position

record IncludeDirective =
  headerName :: string
  isSystemHeader :: bool
  includePosition :: Position

subsection \<open>The function table\<close>

text \<open>
  \<open>STANDARD_LIBRARY_FUNCTIONS\<close>, an object literal from function names to header lists, in
  the order of the source (114 entries, no key twice).
\<close>

definition STANDARD_LIBRARY_FUNCTIONS :: "(string \<times> string list) list" where
  "STANDARD_LIBRARY_FUNCTIONS =
   [(''printf'', [''stdio.h'']), (''scanf'', [''stdio.h'']), (''fprintf'', [''stdio.h'']),
     (''fscanf'', [''stdio.h'']), (''sprintf'', [''stdio.h'']), (''sscanf'', [''stdio.h'']),
     (''fopen'', [''stdio.h'']), (''fclose'', [''stdio.h'']), (''fread'', [''stdio.h'']),
     (''fwrite'', [''stdio.h'']), (''fgets'', [''stdio.h'']), (''fputs'', [''stdio.h'']),
     (''getchar'', [''stdio.h'']), (''putchar'', [''stdio.h'']), (''fgetc'', [''stdio.h'']),
     (''fputc'', [''stdio.h'']), (''fseek'', [''stdio.h'']), (''ftell'', [''stdio.h'']),
     (''rewind'', [''stdio.h'']), (''feof'', [''stdio.h'']), (''ferror'', [''stdio.h'']),
     (''perror'', [''stdio.h'']), (''malloc'', [''stdlib.h'']), (''calloc'', [''stdlib.h'']),
     (''realloc'', [''stdlib.h'']), (''free'', [''stdlib.h'']), (''exit'', [''stdlib.h'']),
     (''abort'', [''stdlib.h'']), (''atexit'', [''stdlib.h'']), (''atoi'', [''stdlib.h'']),
     (''atof'', [''stdlib.h'']), (''atol'', [''stdlib.h'']), (''strtol'', [''stdlib.h'']),
     (''strtod'', [''stdlib.h'']), (''rand'', [''stdlib.h'']), (''srand'', [''stdlib.h'']),
     (''system'', [''stdlib.h'']), (''getenv'', [''stdlib.h'']), (''qsort'', [''stdlib.h'']),
     (''bsearch'', [''stdlib.h'']), (''abs'', [''stdlib.h'']), (''labs'', [''stdlib.h'']),
     (''div'', [''stdlib.h'']), (''ldiv'', [''stdlib.h'']), (''strlen'', [''string.h'']),
     (''strcpy'', [''string.h'']), (''strncpy'', [''string.h'']), (''strcat'', [''string.h'']),
     (''strncat'', [''string.h'']), (''strcmp'', [''string.h'']),
     (''strncmp'', [''string.h'']), (''strchr'', [''string.h'']),
     (''strrchr'', [''string.h'']), (''strstr'', [''string.h'']), (''strtok'', [''string.h'']),
     (''memcpy'', [''string.h'']), (''memmove'', [''string.h'']), (''memcmp'', [''string.h'']),
     (''memchr'', [''string.h'']), (''memset'', [''string.h'']), (''sin'', [''math.h'']),
     (''cos'', [''math.h'']), (''tan'', [''math.h'']), (''asin'', [''math.h'']),
     (''acos'', [''math.h'']), (''atan'', [''math.h'']), (''atan2'', [''math.h'']),
     (''sinh'', [''math.h'']), (''cosh'', [''math.h'']), (''tanh'', [''math.h'']),
     (''exp'', [''math.h'']), (''log'', [''math.h'']), (''log10'', [''math.h'']),
     (''pow'', [''math.h'']), (''sqrt'', [''math.h'']), (''ceil'', [''math.h'']),
     (''floor'', [''math.h'']), (''fabs'', [''math.h'']), (''ldexp'', [''math.h'']),
     (''frexp'', [''math.h'']), (''modf'', [''math.h'']), (''fmod'', [''math.h'']),
     (''isalpha'', [''ctype.h'']), (''isdigit'', [''ctype.h'']), (''isalnum'', [''ctype.h'']),
     (''isspace'', [''ctype.h'']), (''islower'', [''ctype.h'']), (''isupper'', [''ctype.h'']),
     (''isprint'', [''ctype.h'']), (''iscntrl'', [''ctype.h'']), (''ispunct'', [''ctype.h'']),
     (''isxdigit'', [''ctype.h'']), (''tolower'', [''ctype.h'']), (''toupper'', [''ctype.h'']),
     (''time'', [''time.h'']), (''clock'', [''time.h'']), (''ctime'', [''time.h'']),
     (''asctime'', [''time.h'']), (''localtime'', [''time.h'']), (''gmtime'', [''time.h'']),
     (''mktime'', [''time.h'']), (''strftime'', [''time.h'']), (''difftime'', [''time.h'']),
     (''assert'', [''assert.h'']), (''va_start'', [''stdarg.h'']),
     (''va_arg'', [''stdarg.h'']), (''va_end'', [''stdarg.h'']), (''va_copy'', [''stdarg.h'']),
     (''setjmp'', [''setjmp.h'']), (''longjmp'', [''setjmp.h'']), (''signal'', [''signal.h'']),
     (''raise'', [''signal.h'']), (''setlocale'', [''locale.h'']),
     (''localeconv'', [''locale.h''])]"

text \<open>
  \<open>STANDARD_LIBRARY_FUNCTIONS[call.name]\<close> is a property access on a plain object: a name
  that is not a key of the literal is looked up in \<open>Object.prototype\<close>, whose properties
  are the names below. Their values are functions (an object for \<open>__proto__\<close>), which
  are truthy and have no method \<open>some\<close>. Every other name gives \<open>undefined\<close>.
\<close>

definition objectPrototypeKeys :: "string list" where
  "objectPrototypeKeys =
     [''constructor'', ''__defineGetter__'', ''__defineSetter__'', ''hasOwnProperty'',
      ''__lookupGetter__'', ''__lookupSetter__'', ''isPrototypeOf'', ''propertyIsEnumerable'',
      ''toString'', ''valueOf'', ''__proto__'', ''toLocaleString'']"

datatype lookup = Headers "string list" | Inherited | Undefined

definition lookupFunction :: "string \<Rightarrow> lookup" where
  "lookupFunction fname =
     (case map_of STANDARD_LIBRARY_FUNCTIONS fname of
        Some requiredHeaders \<Rightarrow> Headers requiredHeaders
      | None \<Rightarrow> if fname \<in> set objectPrototypeKeys then Inherited else Undefined)"

subsection \<open>\<open>analyzeFile\<close>\<close>

definition headerIssue :: "string \<Rightarrow> string list \<Rightarrow> FunctionCall \<Rightarrow> string list \<Rightarrow> ASTIssue" where
  "headerIssue filePath sourceLines call requiredHeaders =
     \<lparr> file' = filePath, line = row (callPosition call) + 1, category = ''Header'',
       message = MsgHeader (callName call) requiredHeaders,
       codeLine = codeLineAt sourceLines (row (callPosition call)),
       issueColumn = column (callPosition call), severity = 1 \<rparr>"

text \<open>
  The loop over the calls. \<open>includedHeaders\<close> are the header names of all include
  directives. With an inherited property, \<open>requiredHeaders.some\<close> is not a function: the
  call throws, the \<open>catch\<close> of \<open>analyzeFile\<close> logs the error, and the issues pushed so far
  are returned.
\<close>

fun callLoop :: "string list \<Rightarrow> string \<Rightarrow> string list \<Rightarrow> FunctionCall list \<Rightarrow>
    ASTIssue list \<Rightarrow> ASTIssue list" where
  "callLoop sourceLines filePath includedHeaders [] issues = issues"
| "callLoop sourceLines filePath includedHeaders (call # calls) issues =
     (case lookupFunction (callName call) of
        Undefined \<Rightarrow> callLoop sourceLines filePath includedHeaders calls issues
      | Inherited \<Rightarrow> issues
      | Headers requiredHeaders \<Rightarrow>
          if list_ex (\<lambda>header. header \<in> set includedHeaders) requiredHeaders
          then callLoop sourceLines filePath includedHeaders calls issues
          else callLoop sourceLines filePath includedHeaders calls
                 (issues @ [headerIssue filePath sourceLines call requiredHeaders]))"

text \<open>
  \<open>parsed\<close> is what the parser gives for the file: \<open>None\<close> when \<open>parse\<close> throws (the
  \<open>catch\<close> returns no issue), else the include directives and the function calls.
\<close>

definition libraryAnalyzeFile :: "(IncludeDirective list \<times> FunctionCall list) option \<Rightarrow>
    string list \<Rightarrow> string \<Rightarrow> ASTIssue list" where
  "libraryAnalyzeFile parsed sourceLines filePath =
     (case parsed of
        None \<Rightarrow> []
      | Some (includes, functionCalls) \<Rightarrow>
          callLoop sourceLines filePath (map headerName includes) functionCalls [])"

subsection \<open>\<open>levenshteinDistance\<close>\<close>

text \<open>
  The matrix is filled row by row; a row is a list. \<open>levRow c xs prev left\<close> is the inner
  loop from column \<open>j\<close> on, for the row of the character \<open>c\<close> of \<open>str2\<close>: \<open>xs\<close> is \<open>str1\<close>
  from index \<open>j - 1\<close>, \<open>prev\<close> is the previous row from column \<open>j - 1\<close> (so it starts with
  \<open>matrix[i-1][j-1]\<close> and \<open>matrix[i-1][j]\<close>) and \<open>left\<close> is \<open>matrix[i][j-1]\<close>. The previous
  row always has one entry more than \<open>xs\<close>; the last equation is never reached.
\<close>

fun levRow :: "char \<Rightarrow> string \<Rightarrow> nat list \<Rightarrow> nat \<Rightarrow> nat list" where
  "levRow c [] prev left = []"
| "levRow c (x # xs) (diag # up # prev) left =
     (let v = (if c = x then diag else min (min (diag + 1) (left + 1)) (up + 1))
      in v # levRow c xs (up # prev) v)"
| "levRow c (x # xs) prev left = []"

text \<open>
  The outer loop over \<open>str2\<close>: row \<open>i\<close> starts with \<open>matrix[i][0] = i\<close>. Row 0 is
  \<open>0, 1, ..., str1.length\<close>, and the result is the last entry of the last row.
\<close>

fun levRows :: "string \<Rightarrow> string \<Rightarrow> nat \<Rightarrow> nat list \<Rightarrow> nat list" where
  "levRows str1 [] i prev = prev"
| "levRows str1 (c # cs) i prev = levRows str1 cs (Suc i) (i # levRow c str1 prev i)"

definition levenshteinDistance :: "string \<Rightarrow> string \<Rightarrow> nat" where
  "levenshteinDistance str1 str2 = last (levRows str1 str2 1 [0 ..< Suc (length str1)])"

subsection \<open>\<open>suggestCorrectHeader\<close>\<close>

text \<open>\<open>toLowerCase\<close> on ASCII text.\<close>

definition toLowerChar :: "char \<Rightarrow> char" where
  "toLowerChar c =
     (case map_of (zip ''ABCDEFGHIJKLMNOPQRSTUVWXYZ'' ''abcdefghijklmnopqrstuvwxyz'') c of
        Some l \<Rightarrow> l
      | None \<Rightarrow> c)"

definition toLowerCase :: "string \<Rightarrow> string" where
  "toLowerCase s = map toLowerChar s"

text \<open>\<open>distance < bestDistance\<close>, where \<open>bestDistance\<close> starts as \<open>Infinity\<close> (here \<open>None\<close>).\<close>

fun lessThanBest :: "nat \<Rightarrow> nat option \<Rightarrow> bool" where
  "lessThanBest distance None = True"
| "lessThanBest distance (Some bestDistance) = (distance < bestDistance)"

fun suggestLoop :: "string \<Rightarrow> string list \<Rightarrow> string option \<Rightarrow> nat option \<Rightarrow> string option" where
  "suggestLoop lowerHeader [] bestMatch bestDistance = bestMatch"
| "suggestLoop lowerHeader (standard # rest) bestMatch bestDistance =
     (let distance = levenshteinDistance lowerHeader (toLowerCase standard)
      in if lessThanBest distance bestDistance \<and> distance \<le> 2
         then suggestLoop lowerHeader rest (Some standard) (Some distance)
         else suggestLoop lowerHeader rest bestMatch bestDistance)"

definition suggestCorrectHeader :: "string \<Rightarrow> string list \<Rightarrow> string option" where
  "suggestCorrectHeader hname standardHeaders =
     suggestLoop (toLowerCase hname) standardHeaders None None"

subsection \<open>\<open>checkHeaderSpelling\<close>\<close>

text \<open>The set \<open>standardHeaders\<close>, in insertion order, which is its iteration order.\<close>

definition standardHeaders :: "string list" where
  "standardHeaders =
     [''stdio.h'', ''stdlib.h'', ''string.h'', ''math.h'', ''ctype.h'',
      ''time.h'', ''assert.h'', ''limits.h'', ''float.h'', ''stdarg.h'',
      ''setjmp.h'', ''signal.h'', ''errno.h'', ''locale.h'', ''stddef.h'',
      ''stdint.h'', ''stdbool.h'', ''inttypes.h'', ''wchar.h'', ''wctype.h'',
      ''iso646.h'', ''complex.h'', ''fenv.h'', ''tgmath.h'']"

text \<open>
  The message names the suggestion when \<open>if (suggestion)\<close> holds: when it is a string
  and not the empty one.
\<close>

definition truthy :: "string option \<Rightarrow> string option" where
  "truthy suggestion = (if suggestion = Some [] then None else suggestion)"

definition headerSpellingIssue :: "string \<Rightarrow> string list \<Rightarrow> IncludeDirective \<Rightarrow> string option \<Rightarrow> ASTIssue" where
  "headerSpellingIssue filePath sourceLines inc suggestion =
     \<lparr> file' = filePath, line = row (includePosition inc) + 1, category = ''HeaderSpelling'',
       message = MsgHeaderSpelling (headerName inc) (truthy suggestion),
       codeLine = codeLineAt sourceLines (row (includePosition inc)),
       issueColumn = column (includePosition inc), severity = 2 \<rparr>"

fun spellingLoop :: "string list \<Rightarrow> string \<Rightarrow> IncludeDirective list \<Rightarrow> ASTIssue list \<Rightarrow> ASTIssue list" where
  "spellingLoop sourceLines filePath [] issues = issues"
| "spellingLoop sourceLines filePath (inc # incs) issues =
     (if isSystemHeader inc \<and> headerName inc \<notin> set standardHeaders
      then spellingLoop sourceLines filePath incs
             (issues @ [headerSpellingIssue filePath sourceLines inc
                          (suggestCorrectHeader (headerName inc) standardHeaders)])
      else spellingLoop sourceLines filePath incs issues)"

text \<open>\<open>parsed\<close> is \<open>None\<close> when \<open>parse\<close> throws, else the include directives.\<close>

definition checkHeaderSpelling :: "IncludeDirective list option \<Rightarrow> string list \<Rightarrow> string \<Rightarrow> ASTIssue list" where
  "checkHeaderSpelling parsed sourceLines filePath =
     (case parsed of
        None \<Rightarrow> []
      | Some includes \<Rightarrow> spellingLoop sourceLines filePath includes [])"

subsection \<open>The edit distance of the specification\<close>

text \<open>
  The notions the specification names, for comparison with the code. The Levenshtein
  edit distance is given by its defining recurrence over deleting, inserting and
  substituting one character; the closest entry of a list is the first entry at the
  minimal distance, when that distance is at most 2.
\<close>

fun editDistance :: "string \<Rightarrow> string \<Rightarrow> nat" where
  "editDistance [] ys = length ys"
| "editDistance (x # xs) [] = length (x # xs)"
| "editDistance (x # xs) (y # ys) =
     min (min (editDistance xs (y # ys) + 1) (editDistance (x # xs) ys + 1))
         (editDistance xs ys + (if x = y then 0 else 1))"

definition closestHeader :: "string \<Rightarrow> string list \<Rightarrow> string option" where
  "closestHeader h whitelist =
     (if whitelist \<noteq> [] \<and> min_list (map (editDistance h) whitelist) \<le> 2
      then find (\<lambda>w. editDistance h w = min_list (map (editDistance h) whitelist)) whitelist
      else None)"

text \<open>
  Two notions for the proofs. \<open>edits xs ys n\<close>: \<open>ys\<close> comes from \<open>xs\<close> by a script of \<open>n\<close>
  deletions, insertions and substitutions. \<open>rowOf a xs b\<close>: the matrix row of the
  processed part \<open>b\<close> of \<open>str2\<close> (reversed), from the column of the processed part \<open>a\<close> of
  \<open>str1\<close> (reversed) on, with \<open>xs\<close> the rest of \<open>str1\<close>.
\<close>

inductive edits :: "string \<Rightarrow> string \<Rightarrow> nat \<Rightarrow> bool" where
  done_edits: "edits [] [] 0"
| keep: "edits xs ys n \<Longrightarrow> edits (x # xs) (x # ys) n"
| substitute: "edits xs ys n \<Longrightarrow> edits (x # xs) (y # ys) (Suc n)"
| delete: "edits xs ys n \<Longrightarrow> edits (x # xs) ys (Suc n)"
| insert: "edits xs ys n \<Longrightarrow> edits xs (y # ys) (Suc n)"

fun rowOf :: "string \<Rightarrow> string \<Rightarrow> string \<Rightarrow> nat list" where
  "rowOf a [] b = [editDistance a b]"
| "rowOf a (x # xs) b = editDistance a b # rowOf (x # a) xs b"

section \<open>The heuristic engine: the format check\<close>

text \<open>
  \<open>analyzeDirHeuristic\<close> goes through the lines of a file. The model covers what decides
  the Format issues of one line: the tests that skip a line before the check is
  reached, and the \<open>printf\<close>/\<open>scanf\<close> check itself. No other part of the loop pushes a
  Format issue. The scope tables the loop maintains enter the check only through
  \<open>getVar\<close>, which is a parameter here.
\<close>

record VariableInfo =
  viName :: string
  typeName :: string
  viIsPointer :: bool
  viIsInitialized :: bool
  firstUseLine :: "nat option"

subsection \<open>Regular expression tests\<close>

text \<open>
  \<open>searchFrom P prev s\<close> tries \<open>P\<close> at every position of \<open>s\<close>, as \<open>test\<close> does for a pattern
  without \<open>^\<close>; \<open>P\<close> gets the character before the position (none at the start) and the
  text from the position on.
\<close>

fun searchFrom :: "(char option \<Rightarrow> string \<Rightarrow> bool) \<Rightarrow> char option \<Rightarrow> string \<Rightarrow> bool" where
  "searchFrom P prev [] = P prev []"
| "searchFrom P prev (c # cs) = (P prev (c # cs) \<or> searchFrom P (Some c) cs)"

text \<open>\<open>\b\<close> before a word character: the start of the text, or after a non-word character.\<close>

fun wordStarts :: "char option \<Rightarrow> bool" where
  "wordStarts None = True"
| "wordStarts (Some p) = (\<not> isWordChar p)"

text \<open>\<open>\s*\(\<close> at the start of the text.\<close>

definition parenFollows :: "string \<Rightarrow> bool" where
  "parenFollows s = (case dropWhile isWhitespace s of [] \<Rightarrow> False | c # cs \<Rightarrow> c = CHR ''('')"

text \<open>\<open>/\b(printf|scanf)\s*\(/\<close> and \<open>/\bscanf\s*\(/\<close>.\<close>

definition printfScanfCall :: "string \<Rightarrow> bool" where
  "printfScanfCall lineText =
     searchFrom (\<lambda>prev s. wordStarts prev \<and>
        ((startsWith s ''printf'' \<and> parenFollows (drop 6 s)) \<or>
         (startsWith s ''scanf'' \<and> parenFollows (drop 5 s)))) None lineText"

definition scanfCall :: "string \<Rightarrow> bool" where
  "scanfCall lineText =
     searchFrom (\<lambda>prev s. wordStarts prev \<and> startsWith s ''scanf'' \<and> parenFollows (drop 5 s))
       None lineText"

subsection \<open>\<open>isLikelyDecl\<close>\<close>

definition typeKeywords :: "string list" where
  "typeKeywords = [''int'', ''char'', ''float'', ''double'', ''void'', ''short'', ''long'',
     ''signed'', ''unsigned'', ''bool'', ''size_t'']"

text \<open>
  \<open>/\b(printf|scanf|malloc|free|strcpy|strlen)\b/\<close>, and for a type keyword \<open>t\<close> the test
  \<open>(^|\s)t(\s|\*)\<close>.
\<close>

definition mentionsLibraryCall :: "string \<Rightarrow> bool" where
  "mentionsLibraryCall lineText =
     searchFrom (\<lambda>prev s. wordStarts prev \<and>
        list_ex (\<lambda>w. startsWith s w \<and> wordEnds (drop (length w) s))
          [''printf'', ''scanf'', ''malloc'', ''free'', ''strcpy'', ''strlen'']) None lineText"

definition keywordOccurs :: "string \<Rightarrow> string \<Rightarrow> bool" where
  "keywordOccurs t lineText =
     searchFrom (\<lambda>prev s.
        (case prev of None \<Rightarrow> True | Some p \<Rightarrow> isWhitespace p) \<and> startsWith s t \<and>
        (case drop (length t) s of [] \<Rightarrow> False | c # cs \<Rightarrow> isWhitespace c \<or> c = CHR ''*''))
       None lineText"

definition isLikelyDecl :: "string \<Rightarrow> bool" where
  "isLikelyDecl lineText =
     (if \<not> includesStr lineText '';'' then False
      else if startsWith (trimStart lineText) ''#'' then False
      else if mentionsLibraryCall lineText then False
      else list_ex (\<lambda>t. keywordOccurs t lineText) typeKeywords)"

subsection \<open>\<open>looksAssignmentTo\<close>\<close>

text \<open>
  The heuristic engine's test for a write to \<open>name\<close> somewhere in the line,
  \<open>(^|[^=<>!])name\s*([-+*/]?=)\<close>: the name stands at the start or after a character
  other than \<open>= < > !\<close>; after it and white space comes \<open>=\<close>, or one of \<open>- + * /\<close> and \<open>=\<close>.
\<close>

fun startsWithHeuristicAssignment :: "string \<Rightarrow> bool" where
  "startsWithHeuristicAssignment [] = False"
| "startsWithHeuristicAssignment [c] = (c = CHR ''='')"
| "startsWithHeuristicAssignment (c # d # s) =
     (c = CHR ''='' \<or> (c \<in> set ''-+*/'' \<and> d = CHR ''=''))"

definition looksAssignmentTo :: "string \<Rightarrow> string \<Rightarrow> bool" where
  "looksAssignmentTo lineText vname =
     searchFrom (\<lambda>prev s.
        (case prev of None \<Rightarrow> True | Some p \<Rightarrow> p \<notin> set ''=<>!'') \<and> startsWith s vname \<and>
        startsWithHeuristicAssignment (dropWhile isWhitespace (drop (length vname) s)))
       None lineText"

subsection \<open>\<open>formatSpecCount\<close>\<close>

text \<open>
  The loop over the indices of \<open>fmt\<close>, with the count so far: at \<open>%\<close> followed by \<open>%\<close> both
  are skipped, at any other \<open>%\<close> (also the last character) the count goes up.
\<close>

fun formatSpecLoop :: "string \<Rightarrow> nat \<Rightarrow> nat" where
  "formatSpecLoop [] cnt = cnt"
| "formatSpecLoop [c] cnt = (if c = CHR ''%'' then cnt + 1 else cnt)"
| "formatSpecLoop (c # d # s) cnt =
     (if c = CHR ''%''
      then (if d = CHR ''%'' then formatSpecLoop s cnt else formatSpecLoop (d # s) (cnt + 1))
      else formatSpecLoop (d # s) cnt)"

definition formatSpecCount :: "string \<Rightarrow> nat" where
  "formatSpecCount fmt = formatSpecLoop fmt 0"

subsection \<open>\<open>getArgsFromCall\<close>\<close>

text \<open>\<open>lastIndexOf\<close> of one character.\<close>

definition lastIndexOfChar :: "string \<Rightarrow> char \<Rightarrow> nat option" where
  "lastIndexOfChar s c =
     (case indexOf (rev s) [c] 0 of None \<Rightarrow> None | Some k \<Rightarrow> Some (length s - 1 - k))"

text \<open>
  The loop over the characters between the parentheses. The state is the nesting
  depth, the buffer, whether a string or character literal is open and its quote \<open>q\<close>
  (a string, empty at first), and the parts pushed so far; the result is the parts and
  the last buffer.
\<close>

fun argsLoop :: "string \<Rightarrow> nat \<Rightarrow> string \<Rightarrow> bool \<Rightarrow> string \<Rightarrow> string list \<Rightarrow> string list \<times> string" where
  "argsLoop [] depth buf inStr q parts = (parts, buf)"
| "argsLoop (c # cs) depth buf inStr q parts =
     (if inStr then argsLoop cs depth (buf @ [c]) ([c] \<noteq> q) q parts
      else if c = CHR 0x22 \<or> c = CHR 0x27 then argsLoop cs depth (buf @ [c]) True [c] parts
      else if c = CHR ''('' then argsLoop cs (depth + 1) (buf @ [c]) False q parts
      else if c = CHR '')'' then argsLoop cs (if depth > 0 then depth - 1 else depth) (buf @ [c]) False q parts
      else if c = CHR '','' \<and> depth = 0 then argsLoop cs depth [] False q (parts @ [trim buf])
      else argsLoop cs depth (buf @ [c]) False q parts)"

definition getArgsFromCall :: "string \<Rightarrow> string list" where
  "getArgsFromCall lineText =
     (case (indexOf lineText ''('' 0, lastIndexOfChar lineText (CHR '')'')) of
        (Some lp, Some rp) \<Rightarrow>
          if rp \<le> lp then []
          else
            (let inside = take (rp - (lp + 1)) (drop (lp + 1) lineText);
                 (parts, buf) = argsLoop inside 0 [] False [] []
             in if trim buf \<noteq> [] then parts @ [trim buf] else parts)
      | _ \<Rightarrow> [])"

subsection \<open>The format string\<close>

text \<open>
  \<open>fmt.match(/^[\s\(]*"([\s\S]*?)"[\s\)]*$/)\<close>, and its group: after white space and
  opening parentheses comes a quote; the closing quote is the last character before
  the trailing white space and closing parentheses; the group is what lies between.
\<close>

definition fmtStrMatch :: "string \<Rightarrow> string option" where
  "fmtStrMatch fmt =
     (case dropWhile (\<lambda>c. isWhitespace c \<or> c = CHR ''('') fmt of
        [] \<Rightarrow> None
      | c # rest \<Rightarrow>
          if c \<noteq> CHR 0x22 then None
          else
            (case dropWhile (\<lambda>c. isWhitespace c \<or> c = CHR '')'') (rev rest) of
               [] \<Rightarrow> None
             | d # inner \<Rightarrow> if d = CHR 0x22 then Some (rev inner) else None))"

subsection \<open>The arguments of a call\<close>

text \<open>
  A notion for stating what a call line is. \<open>wellFormedArg 0 None a\<close> says of the text
  \<open>a\<close> of one argument: its string and character literals are closed, a literal going
  from its quote to the next occurrence of the same quote; outside the literals the
  parentheses are balanced, and a comma stands only inside parentheses. \<open>d\<close> is the
  number of parentheses open before the text, and the second argument the quote of the
  literal that is open there, if any.
\<close>

fun wellFormedArg :: "nat \<Rightarrow> char option \<Rightarrow> string \<Rightarrow> bool" where
  "wellFormedArg d None [] = (d = 0)"
| "wellFormedArg d (Some q) [] = False"
| "wellFormedArg d (Some q) (c # cs) = wellFormedArg d (if c = q then None else Some q) cs"
| "wellFormedArg d None (c # cs) =
     (if c = CHR 0x22 \<or> c = CHR 0x27 then wellFormedArg d (Some c) cs
      else if c = CHR ''('' then wellFormedArg (Suc d) None cs
      else if c = CHR '')'' then d > 0 \<and> wellFormedArg (d - 1) None cs
      else if c = CHR '','' then d > 0 \<and> wellFormedArg d None cs
      else wellFormedArg d None cs)"

subsection \<open>The check of one line\<close>

definition formatIssue :: "string \<Rightarrow> nat \<Rightarrow> message \<Rightarrow> string \<Rightarrow> Issue" where
  "formatIssue filePath i msg raw =
     \<lparr> file' = filePath, line = i + 1, category = ''Format'', message = msg, codeLine = raw \<rparr>"

text \<open>
  \<open>getNameFromExpr\<close>: the first identifier of the expression, after a leading \<open>&\<close> is
  removed; the empty string when there is none.
\<close>

definition isIdentStart :: "char \<Rightarrow> bool" where
  "isIdentStart c = (c \<in> set ''abcdefghijklmnopqrstuvwxyzABCDEFGHIJKLMNOPQRSTUVWXYZ_'')"

definition getNameFromExpr :: "string \<Rightarrow> string" where
  "getNameFromExpr expr =
     (let e = trim expr;
          e' = (case e of [] \<Rightarrow> e | c # r \<Rightarrow> if c = CHR ''&'' then r else e)
      in takeWhile isWordChar (dropWhile (\<lambda>c. \<not> isIdentStart c) e'))"

text \<open>The loop over the arguments after the format string, for \<open>scanf\<close>.\<close>

fun scanfAddressLoop :: "(string \<Rightarrow> VariableInfo option) \<Rightarrow> string \<Rightarrow> nat \<Rightarrow> string \<Rightarrow> string list \<Rightarrow> Issue list" where
  "scanfAddressLoop getVar filePath i raw [] = []"
| "scanfAddressLoop getVar filePath i raw (expr # exprs) =
     (if getNameFromExpr expr = [] then scanfAddressLoop getVar filePath i raw exprs
      else if \<not> startsWith (trim expr) ''&'' \<and>
              \<not> (case getVar (getNameFromExpr expr) of None \<Rightarrow> False | Some v \<Rightarrow> typeName v = ''char'')
      then formatIssue filePath i MsgScanfAddress raw # scanfAddressLoop getVar filePath i raw exprs
      else scanfAddressLoop getVar filePath i raw exprs)"

text \<open>
  The \<open>printf\<close>/\<open>scanf\<close> block for the line with index \<open>i\<close>: \<open>lineText\<close> is the line as the
  loop has prepared it, \<open>raw\<close> the line of the file.
\<close>

definition formatCheck :: "(string \<Rightarrow> VariableInfo option) \<Rightarrow> string \<Rightarrow> nat \<Rightarrow> string \<Rightarrow> string \<Rightarrow> Issue list" where
  "formatCheck getVar filePath i lineText raw =
     (if printfScanfCall lineText
      then
        (let isScanf = scanfCall lineText;
             args = getArgsFromCall lineText
         in case args of
              [] \<Rightarrow> []
            | fmt # rest \<Rightarrow>
                (let specCount = (case fmtStrMatch fmt of None \<Rightarrow> 0 | Some s \<Rightarrow> formatSpecCount s);
                     provided = length rest;
                     fname = (if isScanf then ''scanf'' else ''printf'')
                 in (if provided < specCount
                     then [formatIssue filePath i (MsgFormatTooFew fname) raw] else []) @
                    (if provided > specCount
                     then [formatIssue filePath i (MsgFormatTooMany fname) raw] else []) @
                    (if isScanf then scanfAddressLoop getVar filePath i raw rest else [])))
      else [])"

text \<open>\<open>getVar\<close> when no variable is declared.\<close>

definition noVariables :: "string \<Rightarrow> VariableInfo option" where
  "noVariables vname = None"

text \<open>
  How the loop prepares a line: it is trimmed; an empty line and a line that starts
  with \<open>#\<close> are skipped; the text from the first \<open>//\<close> on is cut off.
\<close>

definition prepareLine :: "string \<Rightarrow> string option" where
  "prepareLine raw =
     (let lineText = trim raw
      in if lineText = [] then None
         else if startsWith lineText ''#'' then None
         else (case indexOf lineText ''//'' 0 of
                 None \<Rightarrow> Some lineText
               | Some k \<Rightarrow> Some (take k lineText)))"

text \<open>
  The Format issues of the line with index \<open>i\<close>: a line taken for a declaration is left
  with \<open>continue\<close> before the check.
\<close>

definition formatIssuesOfLine :: "(string \<Rightarrow> VariableInfo option) \<Rightarrow> string \<Rightarrow> nat \<Rightarrow> string \<Rightarrow> Issue list" where
  "formatIssuesOfLine getVar filePath i raw =
     (case prepareLine raw of
        None \<Rightarrow> []
      | Some lineText \<Rightarrow>
          if isLikelyDecl lineText then [] else formatCheck getVar filePath i lineText raw)"

section \<open>Reporting: \<open>printIssues\<close>\<close>

text \<open>The callback of \<open>issues.filter\<close>: whether an issue is kept.\<close>

definition keepIssue :: "'a Issue_scheme \<Rightarrow> bool" where
  "keepIssue issue =
     (if includesStr (file' issue) ''avl_tree.c''
      then (if line issue = 7 \<or> line issue = 8 \<or> line issue = 16 then False else True)
      else True)"

definition filteredIssues :: "'a Issue_scheme list \<Rightarrow> 'a Issue_scheme list" where
  "filteredIssues issues = filter keepIssue issues"

text \<open>
  What is printed: for every issue kept, a line with the relative path, the line
  number, the category and the message, and a line with the code. \<open>relative\<close> stands
  for \<open>path.relative(process.cwd(), _)\<close>.
\<close>

datatype printed = IssueLine string nat string message | CodeLine string

definition printIssues :: "(string \<Rightarrow> string) \<Rightarrow> 'a Issue_scheme list \<Rightarrow> printed list" where
  "printIssues relative issues =
     concat (map (\<lambda>issue. [IssueLine (relative (file' issue)) (line issue) (category issue) (message issue),
                            CodeLine (codeLine issue)])
               (filteredIssues issues))"

section \<open>Properties of the variable detector\<close>

subsection \<open>The loops in closed form\<close>

lemma isAssignmentTarget_Some: "\<exists>b. isAssignmentTarget (Some l) n c = Inr b"
  by (cases "indexOf l n c") (auto simp: isAssignmentTarget_def)

lemma uninitializedIssue_flag [simp]:
  "uninitializedIssue f ls (v\<lparr>isInitialized := b\<rparr>) u = uninitializedIssue f ls v u"
  by (simp add: uninitializedIssue_def)

lemma usageLoop_result:
  assumes "\<forall>u\<in>set usages. row u < length sourceLines"
  shows "usageLoop sourceLines filePath usages (v, acc) =
     Inr (v\<lparr>isInitialized := isInitialized v \<or>
              (\<exists>u\<in>set usages. row u \<noteq> row (position v) \<and>
                 isAssignmentTarget (lineAt sourceLines (row u)) (name v) (column u) = Inr True)\<rparr>,
          acc @ map (uninitializedIssue filePath sourceLines v)
                  (filter (\<lambda>u. row u \<noteq> row (position v) \<and>
                     isAssignmentTarget (lineAt sourceLines (row u)) (name v) (column u) = Inr False)
                   usages))"
  using assms
proof (induction usages arbitrary: v acc)
  case Nil
  then show ?case by simp
next
  case (Cons u us)
  from Cons.prems have inr: "row u < length sourceLines" and rest: "\<forall>u\<in>set us. row u < length sourceLines"
    by simp_all
  obtain b where b: "isAssignmentTarget (lineAt sourceLines (row u)) (name v) (column u) = Inr b"
    using inr isAssignmentTarget_Some [of "sourceLines ! row u" "name v" "column u"] by (auto simp: lineAt_def)
  show ?case
  proof (cases "row u = row (position v)")
    case True
    then show ?thesis using Cons.IH [OF rest] by simp
  next
    case False
    show ?thesis
    proof (cases b)
      case True
      with False b show ?thesis using Cons.IH [OF rest, of "v\<lparr>isInitialized := True\<rparr>" acc] by simp
    next
      case bf: False
      with False b show ?thesis using Cons.IH [OF rest, of v] by auto
    qed
  qed
qed


lemma usageLoop_skips_declaration_line:
  "usageLoop sourceLines filePath (filter (\<lambda>u. row u \<noteq> row (position v)) usages) (v, acc) =
   usageLoop sourceLines filePath usages (v, acc)"
proof (induction usages arbitrary: v acc)
  case Nil
  show ?case by simp
next
  case (Cons u us)
  show ?case
  proof (cases "row u = row (position v)")
    case True
    then show ?thesis using Cons.IH by simp
  next
    case False
    have upd: "(\<lambda>u. row u \<noteq> row (position (v\<lparr>isInitialized := True\<rparr>))) = (\<lambda>u. row u \<noteq> row (position v))"
      by simp
    show ?thesis using False Cons.IH [of v] Cons.IH [of "v\<lparr>isInitialized := True\<rparr>"]
      by (auto split: sum.splits bool.splits simp: upd)
  qed
qed

lemma derefLoop_result:
  "derefLoop sourceLines filePath derefs v acc =
     acc @ (if isPointer v \<and> \<not> isInitialized v
            then map (wildPointerIssue filePath sourceLines v)
                   (filter (\<lambda>d. row d \<noteq> row (position v)) derefs)
            else [])"
  by (induction derefs arbitrary: acc) auto

lemma usageLoop_position:
  "usageLoop sourceLines filePath usages (v, acc) = Inr (v', is) \<Longrightarrow> position v' = position v"
proof (induction usages arbitrary: v acc)
  case Nil
  then show ?case by simp
next
  case (Cons u us)
  then show ?case
    by (fastforce split: if_splits sum.splits bool.splits)
qed

lemma nullDerefLoop_result:
  "nullDerefLoop sourceLines filePath p derefs acc =
     acc @ map (nullPointerIssue filePath sourceLines p)
             (filter (\<lambda>d. row (position p) < row d) derefs)"
  by (induction derefs arbitrary: acc) auto






text \<open>The equations that evaluate the detector on a concrete file.\<close>

lemmas variable_detector_eval = checkVariableUsage_def isStructField_def lineAt_def isAssignmentTarget_def
  indexOf_def trim_def isWhitespace_def uninitializedIssue_def codeLineAt_def wildPointerIssue_def
  upt_rec

subsection \<open>Claims\<close>






text \<open>
  Claim C3. The claim excludes the comparison \<open>==\<close> from the writes; the test of
  \<open>isAssignmentTarget\<close> accepts everything that starts with \<open>=\<close>. At the line
  \<open>if (x == 5) y = 1;\<close> the occurrence of \<open>x\<close> is a write for the code: it is not
  reported, and it sets \<open>isInitialized\<close>. The heuristic engine's \<open>looksAssignmentTo\<close>
  takes the same line for a write to \<open>x\<close>.
\<close>

theorem comparison_classified_as_write:
  "isAssignmentTarget (Some ''if (x == 5) y = 1;'') ''x'' 4 = Inr True
   \<and> checkVariableUsage [\<lparr>row = 1, column = 4\<rparr>] []
        \<lparr>name = ''x'', vtype = ''int'', isPointer = False, isInitialized = False,
          isParameter = False, scope = ''main'', position = \<lparr>row = 0, column = 4\<rparr>\<rparr>
        [''int x;'', ''if (x == 5) y = 1;''] ''a.c'' =
     Inr ([], \<lparr>name = ''x'', vtype = ''int'', isPointer = False, isInitialized = True,
          isParameter = False, scope = ''main'', position = \<lparr>row = 0, column = 4\<rparr>\<rparr>)
   \<and> looksAssignmentTo ''if (x == 5) y = 1;'' ''x''"
proof -
  have "looksAssignmentTo ''if (x == 5) y = 1;'' ''x''"
    by code_simp
  then show ?thesis
    by (simp add: checkVariableUsage_def isStructField_def lineAt_def isAssignmentTarget_def
          indexOf_def trim_def isWhitespace_def)
qed

text \<open>
  What the test accepts, in general, and the occurrences before \<open><=\<close>, \<open>>=\<close>, \<open>!=\<close> and
  \<open>%=\<close>: the first three are no writes, the last is one. In the heuristic engine
  \<open>%=\<close> is no write.
\<close>

lemma startsWithAssignment_iff:
  "startsWithAssignment s =
     (\<exists>t. s = CHR ''='' # t \<or> (\<exists>c\<in>set ''+-*/%''. s = c # CHR ''='' # t))"
  by (cases s rule: startsWithAssignment.cases) auto

lemma other_comparisons_not_writes:
  "isAssignmentTarget (Some ''if (x <= 5) y = 1;'') ''x'' 4 = Inr False"
  "isAssignmentTarget (Some ''if (x >= 5) y = 1;'') ''x'' 4 = Inr False"
  "isAssignmentTarget (Some ''if (x != 5) y = 1;'') ''x'' 4 = Inr False"
  "isAssignmentTarget (Some ''x %= 5;'') ''x'' 0 = Inr True"
  "\<not> looksAssignmentTo ''if (x <= 5) y = 1;'' ''x''"
  "\<not> looksAssignmentTo ''x %= 5;'' ''x''"
  by code_simp+

text \<open>
  Claim C4, amended. For a pointer declaration that is not initialized, not a parameter
  and not taken for a struct field, the dereferences are looked at after the whole
  usage scan: when no usage was a write, every dereference off the declaration's line
  is reported, and when some usage was a write, whatever its place, none is. The issue
  carries the wild-pointer message and the category \<open>NullPointer\<close>.
\<close>

theorem wild_pointer_by_final_flag:
  assumes "\<not> isInitialized v" and "\<not> isParameter v" and "isPointer v"
    and "isStructField sourceLines (row (position v)) = Inr False"
    and "\<forall>u\<in>set usages. row u < length sourceLines"
  shows "checkVariableUsage usages derefs v sourceLines filePath =
           Inr (map (uninitializedIssue filePath sourceLines v)
                  (filter (\<lambda>u. row u \<noteq> row (position v) \<and>
                     isAssignmentTarget (lineAt sourceLines (row u)) (name v) (column u) = Inr False)
                   usages) @
                (if \<exists>u\<in>set usages. row u \<noteq> row (position v) \<and>
                      isAssignmentTarget (lineAt sourceLines (row u)) (name v) (column u) = Inr True
                 then []
                 else map (wildPointerIssue filePath sourceLines v)
                        (filter (\<lambda>d. row d \<noteq> row (position v)) derefs)),
                v\<lparr>isInitialized :=
                    \<exists>u\<in>set usages. row u \<noteq> row (position v) \<and>
                      isAssignmentTarget (lineAt sourceLines (row u)) (name v) (column u) = Inr True\<rparr>)
         \<and> (\<forall>d. category (wildPointerIssue filePath sourceLines v d) = ''NullPointer''
                \<and> message (wildPointerIssue filePath sourceLines v d) = MsgWildPointer (name v))"
proof -
  have w: "wildPointerIssue filePath sourceLines (v\<lparr>isInitialized := b\<rparr>) =
      wildPointerIssue filePath sourceLines v" for b
    by (simp add: wildPointerIssue_def fun_eq_iff)
  have "checkVariableUsage usages derefs v sourceLines filePath =
           Inr (map (uninitializedIssue filePath sourceLines v)
                  (filter (\<lambda>u. row u \<noteq> row (position v) \<and>
                     isAssignmentTarget (lineAt sourceLines (row u)) (name v) (column u) = Inr False)
                   usages) @
                (if \<exists>u\<in>set usages. row u \<noteq> row (position v) \<and>
                      isAssignmentTarget (lineAt sourceLines (row u)) (name v) (column u) = Inr True
                 then []
                 else map (wildPointerIssue filePath sourceLines v)
                        (filter (\<lambda>d. row d \<noteq> row (position v)) derefs)),
                v\<lparr>isInitialized :=
                    \<exists>u\<in>set usages. row u \<noteq> row (position v) \<and>
                      isAssignmentTarget (lineAt sourceLines (row u)) (name v) (column u) = Inr True\<rparr>)"
    using assms
    by (auto simp: checkVariableUsage_def usageLoop_result derefLoop_result w)
  then show ?thesis
    by (simp add: wildPointerIssue_def)
qed

text \<open>
  The theorem at a file where the dereference (line 2) comes before the write (line 3):
  the final flag is true, so the dereference is not reported as a wild pointer.
\<close>

theorem wild_pointer_by_final_flag_witness:
  "checkVariableUsage [\<lparr>row = 1, column = 5\<rparr>, \<lparr>row = 2, column = 0\<rparr>] [\<lparr>row = 1, column = 4\<rparr>]
     \<lparr>name = ''p'', vtype = ''int'', isPointer = True, isInitialized = False,
       isParameter = False, scope = ''main'', position = \<lparr>row = 0, column = 5\<rparr>\<rparr>
     [''int *p;'', ''y = *p;'', ''p = q;''] ''a.c'' =
   Inr ([\<lparr>file' = ''a.c'', line = 2, category = ''Uninitialized'',
          message = MsgUninitialized ''p'', codeLine = ''y = *p;'',
          issueColumn = 5, severity = 1\<rparr>],
        \<lparr>name = ''p'', vtype = ''int'', isPointer = True, isInitialized = True,
          isParameter = False, scope = ''main'', position = \<lparr>row = 0, column = 5\<rparr>\<rparr>)"
proof -
  let ?v = "\<lparr>name = ''p'', vtype = ''int'', isPointer = True, isInitialized = False,
       isParameter = False, scope = ''main'', position = \<lparr>row = 0, column = 5\<rparr>\<rparr>"
  let ?ls = "[''int *p;'', ''y = *p;'', ''p = q;'']"
  let ?us = "[\<lparr>row = 1, column = 5\<rparr>, \<lparr>row = 2, column = (0::nat)\<rparr>]"
  have h1: "\<not> isInitialized ?v" and h2: "\<not> isParameter ?v" and h3: "isPointer ?v"
    by simp_all
  have h4: "isStructField ?ls (row (position ?v)) = Inr False"
    by (simp add: isStructField_def)
  have h5: "\<forall>u\<in>set ?us. row u < length ?ls"
    by simp
  have a1: "isAssignmentTarget (Some ''y = *p;'') ''p'' 5 = Inr False"
    by (simp add: isAssignmentTarget_def indexOf_def trim_def isWhitespace_def)
  have a2: "isAssignmentTarget (Some ''p = q;'') ''p'' 0 = Inr True"
    by (simp add: isAssignmentTarget_def indexOf_def trim_def isWhitespace_def)
  show ?thesis
    using wild_pointer_by_final_flag [OF h1 h2 h3 h4 h5, of "[\<lparr>row = 1, column = 4\<rparr>]" "''a.c''"]
    by (simp add: lineAt_def a1 a2 uninitializedIssue_def codeLineAt_def)
qed

text \<open>
  Counterexample for C4 as stated: with no write at all, the dereference on line 2 is
  reported, and its category is \<open>NullPointer\<close>, not \<open>WildPointer\<close>.
\<close>

theorem wild_pointer_category_counterexample:
  "checkVariableUsage [\<lparr>row = 1, column = 5\<rparr>] [\<lparr>row = 1, column = 4\<rparr>]
     \<lparr>name = ''p'', vtype = ''int'', isPointer = True, isInitialized = False,
       isParameter = False, scope = ''main'', position = \<lparr>row = 0, column = 5\<rparr>\<rparr>
     [''int *p;'', ''y = *p;''] ''a.c'' =
   Inr ([\<lparr>file' = ''a.c'', line = 2, category = ''Uninitialized'',
          message = MsgUninitialized ''p'', codeLine = ''y = *p;'',
          issueColumn = 5, severity = 1\<rparr>,
         \<lparr>file' = ''a.c'', line = 2, category = ''NullPointer'',
          message = MsgWildPointer ''p'', codeLine = ''y = *p;'',
          issueColumn = 4, severity = 0\<rparr>],
        \<lparr>name = ''p'', vtype = ''int'', isPointer = True, isInitialized = False,
          isParameter = False, scope = ''main'', position = \<lparr>row = 0, column = 5\<rparr>\<rparr>)
   \<and> ''NullPointer'' \<noteq> ''WildPointer''"
  by (simp add: variable_detector_eval)

text \<open>
  Claim C7, amended. Occurrences on the declaration's own line are never considered by
  \<open>checkVariableUsage\<close>: with or without them the result is the same. The null-pointer
  check considers only the dereferences on lines strictly after the declaration's.
\<close>

theorem declaration_line_never_considered:
  "checkVariableUsage usages derefs v sourceLines filePath =
     checkVariableUsage (filter (\<lambda>u. row u \<noteq> row (position v)) usages)
       (filter (\<lambda>d. row d \<noteq> row (position v)) derefs) v sourceLines filePath
   \<and> nullDerefLoop sourceLines filePath p ds acc =
     nullDerefLoop sourceLines filePath p (filter (\<lambda>d. row (position p) < row d) ds) acc"
proof
  have "derefLoop sourceLines filePath (filter (\<lambda>d. row d \<noteq> row (position v)) derefs) v' is =
        derefLoop sourceLines filePath derefs v' is" if "position v' = position v" for v' "is"
    using that by (simp add: derefLoop_result)
  then show "checkVariableUsage usages derefs v sourceLines filePath =
     checkVariableUsage (filter (\<lambda>u. row u \<noteq> row (position v)) usages)
       (filter (\<lambda>d. row d \<noteq> row (position v)) derefs) v sourceLines filePath"
    by (auto simp: checkVariableUsage_def usageLoop_skips_declaration_line
          split: sum.splits bool.splits dest: usageLoop_position)
  show "nullDerefLoop sourceLines filePath p ds acc =
     nullDerefLoop sourceLines filePath p (filter (\<lambda>d. row (position p) < row d) ds) acc"
    by (simp add: nullDerefLoop_result)
qed

text \<open>
  Counterexample for C7 as stated, in the usage scan: the declaration is on line 2,
  the occurrences of the same name on line 1 are considered, the write \<open>x = 1\<close> sets
  \<open>isInitialized\<close> and the read \<open>return x\<close> is reported at line 1.
\<close>

theorem earlier_line_considered_counterexample:
  "checkVariableUsage
     [\<lparr>row = 0, column = 14\<rparr>, \<lparr>row = 0, column = 28\<rparr>, \<lparr>row = 1, column = 14\<rparr>,
      \<lparr>row = 1, column = 17\<rparr>, \<lparr>row = 1, column = 31\<rparr>] []
     \<lparr>name = ''x'', vtype = ''int'', isPointer = False, isInitialized = False,
       isParameter = False, scope = ''h'', position = \<lparr>row = 1, column = 14\<rparr>\<rparr>
     [''int g() { int x = 1; return x; }'', ''int h() { int x; x = 2; return x; }''] ''a.c'' =
   Inr ([\<lparr>file' = ''a.c'', line = 1, category = ''Uninitialized'',
          message = MsgUninitialized ''x'', codeLine = ''int g() { int x = 1; return x; }'',
          issueColumn = 28, severity = 1\<rparr>],
        \<lparr>name = ''x'', vtype = ''int'', isPointer = False, isInitialized = True,
          isParameter = False, scope = ''h'', position = \<lparr>row = 1, column = 14\<rparr>\<rparr>)"
  by (simp add: variable_detector_eval)

section \<open>Properties of the library detector\<close>

subsection \<open>Edit distance: bounds between neighbours\<close>

lemma editDistance_Nil2 [simp]: "editDistance xs [] = length xs"
  by (cases xs) simp_all

lemma editDistance_delete: "editDistance (x # xs) ys \<le> editDistance xs ys + 1"
  by (cases ys) simp_all

lemma editDistance_insert: "editDistance xs (y # ys) \<le> editDistance xs ys + 1"
  by (cases xs) simp_all

lemma editDistance_drop_right: "editDistance xs ys \<le> editDistance xs (y # ys) + 1"
proof (induction xs arbitrary: ys y)
  case Nil
  show ?case by simp
next
  case (Cons x xs)
  have "editDistance (x # xs) ys \<le> editDistance xs ys + 1"
    by (rule editDistance_delete)
  moreover have "editDistance xs ys \<le> editDistance xs (y # ys) + 1"
    by (rule Cons.IH)
  ultimately show ?case by simp
qed

lemma editDistance_drop_left: "editDistance xs ys \<le> editDistance (x # xs) ys + 1"
proof (induction ys arbitrary: xs x)
  case Nil
  show ?case by simp
next
  case (Cons y ys)
  have "editDistance xs (y # ys) \<le> editDistance xs ys + 1"
    by (rule editDistance_insert)
  moreover have "editDistance xs ys \<le> editDistance (x # xs) ys + 1"
    by (rule Cons.IH)
  ultimately show ?case by simp
qed

lemma editDistance_same_head: "editDistance (x # xs) (x # ys) = editDistance xs ys"
  using editDistance_drop_right [of xs ys x] editDistance_drop_left [of xs ys x]
  by simp

subsection \<open>Edit scripts, and the distance of reversed strings\<close>


lemma edits_Nil_left: "edits [] ys (length ys)"
  by (induction ys) (auto intro: edits.intros)

lemma edits_Nil_right: "edits xs [] (length xs)"
  by (induction xs) (auto intro: edits.intros)

lemma edits_editDistance: "edits xs ys (editDistance xs ys)"
proof (induction xs ys rule: editDistance.induct)
  case (1 ys)
  show ?case by (simp add: edits_Nil_left)
next
  case (2 x xs)
  show ?case using edits_Nil_right [of "x # xs"] by simp
next
  case (3 x xs y ys)
  let ?a = "editDistance xs (y # ys) + 1" and ?b = "editDistance (x # xs) ys + 1"
    and ?c = "editDistance xs ys + (if x = y then 0 else 1)"
  have d: "editDistance (x # xs) (y # ys) = min (min ?a ?b) ?c" by simp
  have a: "edits (x # xs) (y # ys) ?a" using "3.IH"(1) by (auto intro: edits.delete)
  have b: "edits (x # xs) (y # ys) ?b" using "3.IH"(2) by (auto intro: edits.insert)
  have c: "edits (x # xs) (y # ys) ?c" using "3.IH"(3) by (auto intro: edits.keep edits.substitute)
  have "min (min ?a ?b) ?c = ?a \<or> min (min ?a ?b) ?c = ?b \<or> min (min ?a ?b) ?c = ?c"
    by (auto simp: min_def)
  with a b c d show ?case by metis
qed

lemma editDistance_least: "edits xs ys n \<Longrightarrow> editDistance xs ys \<le> n"
proof (induction rule: edits.induct)
  case done_edits
  show ?case by simp
next
  case (keep xs ys n x)
  then show ?case by (simp add: min.coboundedI2)
next
  case (substitute xs ys n x y)
  then show ?case by (simp add: min.coboundedI2)
next
  case (delete xs ys n x)
  then show ?case using editDistance_delete [of x xs ys] by simp
next
  case (insert xs ys n y)
  then show ?case using editDistance_insert [of xs y ys] by simp
qed

lemma edits_snoc:
  assumes "edits xs ys n"
  shows "edits (xs @ [a]) (ys @ [a]) n"
    and "edits (xs @ [a]) (ys @ [b]) (Suc n)"
    and "edits (xs @ [a]) ys (Suc n)"
    and "edits xs (ys @ [b]) (Suc n)"
  using assms
proof (induction rule: edits.induct)
  case done_edits
  {
    case 1 show ?case using edits.keep [OF edits.done_edits] by simp
  next
    case 2 show ?case using edits.substitute [OF edits.done_edits] by simp
  next
    case 3 show ?case using edits.delete [OF edits.done_edits] by simp
  next
    case 4 show ?case using edits.insert [OF edits.done_edits] by simp
  }
next
  case (keep xs ys n x)
  {
    case 1 show ?case using keep.IH(1) by (simp add: edits.keep)
  next
    case 2 show ?case using keep.IH(2) by (simp add: edits.keep)
  next
    case 3 show ?case using keep.IH(3) by (simp add: edits.keep)
  next
    case 4 show ?case using keep.IH(4) by (simp add: edits.keep)
  }
next
  case (substitute xs ys n x y)
  {
    case 1 show ?case using substitute.IH(1) by (simp add: edits.substitute)
  next
    case 2 show ?case using substitute.IH(2) by (simp add: edits.substitute)
  next
    case 3 show ?case using substitute.IH(3) by (simp add: edits.substitute)
  next
    case 4 show ?case using substitute.IH(4) by (simp add: edits.substitute)
  }
next
  case (delete xs ys n x)
  {
    case 1 show ?case using delete.IH(1) by (simp add: edits.delete)
  next
    case 2 show ?case using delete.IH(2) by (simp add: edits.delete)
  next
    case 3 show ?case using delete.IH(3) by (simp add: edits.delete)
  next
    case 4 show ?case using delete.IH(4) by (simp add: edits.delete)
  }
next
  case (insert xs ys n y)
  {
    case 1 show ?case using insert.IH(1) by (simp add: edits.insert)
  next
    case 2 show ?case using insert.IH(2) by (simp add: edits.insert)
  next
    case 3 show ?case using insert.IH(3) by (simp add: edits.insert)
  next
    case 4 show ?case using insert.IH(4) by (simp add: edits.insert)
  }
qed

lemma edits_rev: "edits xs ys n \<Longrightarrow> edits (rev xs) (rev ys) n"
  by (induction rule: edits.induct) (auto intro: edits.done_edits edits_snoc)

lemma editDistance_rev: "editDistance (rev xs) (rev ys) = editDistance xs ys"
proof (rule antisym)
  show "editDistance (rev xs) (rev ys) \<le> editDistance xs ys"
    by (rule editDistance_least [OF edits_rev [OF edits_editDistance]])
  show "editDistance xs ys \<le> editDistance (rev xs) (rev ys)"
    using editDistance_least [OF edits_rev [OF edits_editDistance [of "rev xs" "rev ys"]]]
    by simp
qed

subsection \<open>The matrix rows\<close>


lemma rowOf_hd: "\<exists>r. rowOf a xs b = editDistance a b # r"
  by (cases xs) simp_all

lemma rowOf_last: "last (rowOf a xs b) = editDistance (rev xs @ a) b"
proof (induction xs arbitrary: a)
  case Nil
  show ?case by simp
next
  case (Cons x xs)
  obtain r where "rowOf (x # a) xs b = editDistance (x # a) b # r"
    using rowOf_hd by blast
  then show ?case using Cons.IH [of "x # a"] by simp
qed

lemma rowOf_first_row: "rowOf a xs [] = [length a ..< Suc (length a + length xs)]"
proof (induction xs arbitrary: a)
  case Nil
  show ?case by simp
next
  case (Cons x xs)
  show ?case using Cons.IH [of "x # a"] by (simp add: upt_conv_Cons del: upt_Suc)
qed

lemma levRow_rowOf:
  "levRow c xs (rowOf a xs b) (editDistance a (c # b)) = tl (rowOf a xs (c # b))"
proof (induction xs arbitrary: a)
  case Nil
  show ?case by simp
next
  case (Cons x xs)
  obtain r where r: "rowOf (x # a) xs b = editDistance (x # a) b # r"
    using rowOf_hd by blast
  obtain r' where r': "rowOf (x # a) xs (c # b) = editDistance (x # a) (c # b) # r'"
    using rowOf_hd by blast
  have v: "(if c = x then editDistance a b
            else min (min (editDistance a b + 1) (editDistance a (c # b) + 1)) (editDistance (x # a) b + 1)) =
           editDistance (x # a) (c # b)"
  proof (cases "c = x")
    case True
    then show ?thesis using editDistance_same_head [of x a b] by (simp del: editDistance.simps)
  next
    case False
    then show ?thesis by (simp add: min.commute min.left_commute)
  qed
  have "levRow c (x # xs) (rowOf a (x # xs) b) (editDistance a (c # b)) =
        editDistance (x # a) (c # b) # levRow c xs (rowOf (x # a) xs b) (editDistance (x # a) (c # b))"
    using v by (simp add: r Let_def del: editDistance.simps)
  also have "\<dots> = editDistance (x # a) (c # b) # tl (rowOf (x # a) xs (c # b))"
    by (simp only: Cons.IH)
  also have "\<dots> = tl (rowOf a (x # xs) (c # b))"
    by (simp add: r' del: editDistance.simps)
  finally show ?case .
qed

lemma levRows_rowOf:
  "i = Suc (length b) \<Longrightarrow> levRows str1 cs i (rowOf [] str1 b) = rowOf [] str1 (rev cs @ b)"
proof (induction cs arbitrary: b i)
  case Nil
  show ?case by simp
next
  case (Cons c cs)
  obtain r where r: "rowOf [] str1 (c # b) = editDistance [] (c # b) # r"
    using rowOf_hd by blast
  have "i # levRow c str1 (rowOf [] str1 b) i = rowOf [] str1 (c # b)"
    using levRow_rowOf [of c str1 "[]" b] Cons.prems r by simp
  then show ?case using Cons.IH [of "Suc i" "c # b"] Cons.prems by simp
qed

lemma levenshteinDistance_editDistance: "levenshteinDistance str1 str2 = editDistance str1 str2"
proof -
  have "levRows str1 str2 1 [0 ..< Suc (length str1)] = rowOf [] str1 (rev str2)"
    using levRows_rowOf [of 1 "[]" str1 str2] rowOf_first_row [of "[]" str1] by simp
  then have "levenshteinDistance str1 str2 = editDistance (rev str1) (rev str2)"
    by (simp add: levenshteinDistance_def rowOf_last)
  then show ?thesis by (simp add: editDistance_rev)
qed

lemma editDistance_refl [simp]: "editDistance xs xs = 0"
  by (induction xs) (simp_all add: editDistance_same_head del: editDistance.simps(3))

lemma editDistance_zero: "editDistance xs ys = 0 \<Longrightarrow> xs = ys"
proof (induction xs ys rule: editDistance.induct)
  case (1 ys)
  then show ?case by simp
next
  case (2 x xs)
  then show ?case by simp
next
  case (3 x xs y ys)
  from "3.prems" have "editDistance xs ys + (if x = y then 0 else 1) = 0"
    by (simp add: min_def split: if_splits)
  then have "x = y" and "editDistance xs ys = 0"
    by (simp_all split: if_splits)
  with "3.IH"(3) show ?case by simp
qed

subsection \<open>The suggestion loop\<close>

lemma suggestLoop_result:
  "suggestLoop lh ws best bd =
     (if ws \<noteq> [] \<and> min_list (map (\<lambda>w. editDistance lh (toLowerCase w)) ws) \<le> 2
         \<and> lessThanBest (min_list (map (\<lambda>w. editDistance lh (toLowerCase w)) ws)) bd
      then find (\<lambda>w. editDistance lh (toLowerCase w) =
                  min_list (map (\<lambda>w. editDistance lh (toLowerCase w)) ws)) ws
      else best)"
proof (induction ws arbitrary: best bd)
  case Nil
  show ?case by simp
next
  case (Cons w ws)
  let ?d = "\<lambda>w. editDistance lh (toLowerCase w)"
  show ?case
  proof (cases ws)
    case Nil
    then show ?thesis
      by (simp add: levenshteinDistance_editDistance Let_def)
  next
    case (Cons w' ws')
    then have ne: "ws \<noteq> []" by simp
    have m: "min_list (map ?d (w # ws)) = min (?d w) (min_list (map ?d ws))"
      using Cons by simp
    show ?thesis
    proof (cases "lessThanBest (?d w) bd \<and> ?d w \<le> 2")
      case True
      then have "suggestLoop lh (w # ws) best bd = suggestLoop lh ws (Some w) (Some (?d w))"
        by (simp add: levenshteinDistance_editDistance Let_def)
      also have "\<dots> = (if min_list (map ?d ws) \<le> 2 \<and> min_list (map ?d ws) < ?d w
          then find (\<lambda>v. ?d v = min_list (map ?d ws)) ws else Some w)"
        using ne by (simp add: Cons.IH)
      finally show ?thesis
        using True ne m by (cases bd) (auto simp: min_def)
    next
      case False
      then have "suggestLoop lh (w # ws) best bd = suggestLoop lh ws best bd"
        by (auto simp: levenshteinDistance_editDistance Let_def)
      then show ?thesis
        using False ne m by (cases bd) (auto simp: Cons.IH min_def)
    qed
  qed
qed

lemma standardHeaders_lower: "w \<in> set standardHeaders \<Longrightarrow> toLowerCase w = w"
  by (auto simp: standardHeaders_def toLowerCase_def toLowerChar_def)

lemma suggestCorrectHeader_closest:
  "suggestCorrectHeader h standardHeaders = closestHeader (toLowerCase h) standardHeaders"
proof -
  have d: "map (\<lambda>w. editDistance (toLowerCase h) (toLowerCase w)) standardHeaders =
           map (editDistance (toLowerCase h)) standardHeaders"
    by (rule map_cong) (simp_all add: standardHeaders_lower)
  have f: "find (\<lambda>w. editDistance (toLowerCase h) (toLowerCase w) = m) standardHeaders =
           find (\<lambda>w. editDistance (toLowerCase h) w = m) standardHeaders" for m
    by (rule find_cong) (simp_all add: standardHeaders_lower)
  show ?thesis
    by (simp add: suggestCorrectHeader_def suggestLoop_result closestHeader_def d f)
qed

lemma spellingLoop_result:
  "spellingLoop sourceLines filePath incs acc =
     acc @ map (\<lambda>inc. headerSpellingIssue filePath sourceLines inc
                         (suggestCorrectHeader (headerName inc) standardHeaders))
             (filter (\<lambda>inc. isSystemHeader inc \<and> headerName inc \<notin> set standardHeaders) incs)"
  by (induction incs arbitrary: acc) simp_all

lemma closestHeader_member:
  "closestHeader h ws = Some w \<Longrightarrow> w \<in> set ws"
  by (auto simp: closestHeader_def find_Some_iff split: if_splits)

lemma standardHeaders_nonempty: "[] \<notin> set standardHeaders"
  by (simp add: standardHeaders_def)

lemma truthy_closestHeader:
  "truthy (closestHeader h standardHeaders) = closestHeader h standardHeaders"
proof (cases "closestHeader h standardHeaders")
  case None
  then show ?thesis by (simp add: truthy_def)
next
  case (Some w)
  then have "w \<noteq> []" using closestHeader_member standardHeaders_nonempty by metis
  with Some show ?thesis by (simp add: truthy_def)
qed

lemma min_list_le:
  assumes "x \<in> set xs"
  shows "min_list xs \<le> (x::nat)"
proof -
  from assms have "xs \<noteq> []" by auto
  then have "min_list xs = Min (set xs)" by (rule min_list_Min)
  with assms show ?thesis by simp
qed

lemma find_eq: "w \<in> set ws \<Longrightarrow> find (\<lambda>v. v = w) ws = Some w"
  by (induction ws) auto

lemma closestHeader_self:
  assumes "w \<in> set ws"
  shows "closestHeader w ws = Some w"
proof -
  have ne: "ws \<noteq> []" using assms by auto
  have "editDistance w w \<in> set (map (editDistance w) ws)"
    using assms by (simp del: editDistance_refl)
  then have "min_list (map (editDistance w) ws) \<le> editDistance w w"
    by (rule min_list_le)
  then have m: "min_list (map (editDistance w) ws) = 0" by simp
  have "(\<lambda>v. editDistance w v = 0) = (\<lambda>v. v = w)"
  proof (rule ext)
    fix v
    show "(editDistance w v = 0) = (v = w)"
      using editDistance_zero [of w v] by auto
  qed
  then show ?thesis
    using ne m assms by (simp add: closestHeader_def find_eq)
qed

lemma editDistance_levenshteinDistance: "editDistance = levenshteinDistance"
  by (intro ext) (simp add: levenshteinDistance_editDistance)

subsection \<open>The loop over the calls\<close>

lemma callLoop_result:
  assumes "\<forall>c\<in>set calls. lookupFunction (callName c) \<noteq> Inherited"
  shows "callLoop sourceLines filePath included calls acc =
     acc @ concat (map (\<lambda>c. case lookupFunction (callName c) of
                           Headers hs \<Rightarrow>
                             if list_ex (\<lambda>h. h \<in> set included) hs then []
                             else [headerIssue filePath sourceLines c hs]
                         | _ \<Rightarrow> []) calls)"
  using assms
  by (induction calls arbitrary: acc) (auto split: lookup.splits)

subsection \<open>Claims\<close>

text \<open>
  Claim C5. A callee name that is not a key of the table but a property inherited from
  \<open>Object.prototype\<close> ends the loop over the calls: at the file below, the call of
  \<open>toString\<close> comes first, and the call of \<open>printf\<close> after it gets no Header issue
  although no header is included.
\<close>

theorem inherited_name_aborts_header_check:
  "lookupFunction ''toString'' = Inherited
   \<and> lookupFunction ''printf'' = Headers [''stdio.h'']
   \<and> libraryAnalyzeFile
       (Some ([], [\<lparr>callName = ''toString'', callPosition = \<lparr>row = 1, column = 13\<rparr>\<rparr>,
                   \<lparr>callName = ''printf'', callPosition = \<lparr>row = 1, column = 26\<rparr>\<rparr>]))
       [''char *toString(int v);'', ''int main() { toString(1); printf(\"x\"); }''] ''a.c'' = []"
proof -
  have a: "lookupFunction ''toString'' = Inherited" by code_simp
  have b: "lookupFunction ''printf'' = Headers [''stdio.h'']" by code_simp
  show ?thesis by (simp add: a b libraryAnalyzeFile_def)
qed

text \<open>
  When no callee name is an inherited property, the code does what the claim says: one
  Header issue, naming all acceptable headers, for every call of a tabulated function
  none of whose headers is among the included header names, be the include a system
  or a quoted one, and nothing else.
\<close>

lemma header_issues_without_inherited_names:
  assumes "\<forall>c\<in>set calls. lookupFunction (callName c) \<noteq> Inherited"
  shows "libraryAnalyzeFile (Some (includes, calls)) sourceLines filePath =
     concat (map (\<lambda>c. case lookupFunction (callName c) of
                         Headers hs \<Rightarrow>
                           if list_ex (\<lambda>h. h \<in> set (map headerName includes)) hs then []
                           else [headerIssue filePath sourceLines c hs]
                       | _ \<Rightarrow> []) calls)"
  using assms by (simp add: libraryAnalyzeFile_def callLoop_result)

text \<open>
  Claim C6, amended. The header-spelling check considers the system includes whose
  header name is not one of the 24 standard headers, and pushes one HeaderSpelling
  issue for each, in order. The suggestion is the closest standard header of the
  lowercased header name: the first entry at the minimal Levenshtein distance, when
  that distance is at most 2, and none otherwise; the message carries it.
\<close>

theorem header_spelling_closest_lowercase:
  "checkHeaderSpelling (Some includes) sourceLines filePath =
     map (\<lambda>inc. headerSpellingIssue filePath sourceLines inc
                  (closestHeader (toLowerCase (headerName inc)) standardHeaders))
       (filter (\<lambda>inc. isSystemHeader inc \<and> headerName inc \<notin> set standardHeaders) includes)
   \<and> message (headerSpellingIssue filePath sourceLines inc (closestHeader h standardHeaders)) =
       MsgHeaderSpelling (headerName inc) (closestHeader h standardHeaders)
   \<and> length standardHeaders = 24"
proof -
  have "checkHeaderSpelling (Some includes) sourceLines filePath =
     map (\<lambda>inc. headerSpellingIssue filePath sourceLines inc
                  (closestHeader (toLowerCase (headerName inc)) standardHeaders))
       (filter (\<lambda>inc. isSystemHeader inc \<and> headerName inc \<notin> set standardHeaders) includes)"
    by (simp add: checkHeaderSpelling_def spellingLoop_result suggestCorrectHeader_closest)
  moreover have "message (headerSpellingIssue filePath sourceLines inc (closestHeader h standardHeaders)) =
       MsgHeaderSpelling (headerName inc) (closestHeader h standardHeaders)"
    by (simp add: headerSpellingIssue_def truthy_closestHeader)
  moreover have "length standardHeaders = 24"
    by (simp add: standardHeaders_def)
  ultimately show ?thesis by blast
qed

text \<open>
  The theorem at four includes: a misspelt system header, the same name quoted, a
  standard header, and a system header far from every standard one.
\<close>

theorem header_spelling_closest_lowercase_witness:
  "checkHeaderSpelling
     (Some [\<lparr>headerName = ''stdoi.h'', isSystemHeader = True, includePosition = \<lparr>row = 0, column = 0\<rparr>\<rparr>,
            \<lparr>headerName = ''stdoi.h'', isSystemHeader = False, includePosition = \<lparr>row = 1, column = 0\<rparr>\<rparr>,
            \<lparr>headerName = ''stdlib.h'', isSystemHeader = True, includePosition = \<lparr>row = 2, column = 0\<rparr>\<rparr>,
            \<lparr>headerName = ''windows.h'', isSystemHeader = True, includePosition = \<lparr>row = 3, column = 0\<rparr>\<rparr>])
     [] ''a.c'' =
   [\<lparr>file' = ''a.c'', line = 1, category = ''HeaderSpelling'',
      message = MsgHeaderSpelling ''stdoi.h'' (Some ''stdio.h''), codeLine = [],
      issueColumn = 0, severity = 2\<rparr>,
    \<lparr>file' = ''a.c'', line = 4, category = ''HeaderSpelling'',
      message = MsgHeaderSpelling ''windows.h'' None, codeLine = [],
      issueColumn = 0, severity = 2\<rparr>]"
proof -
  have a: "closestHeader (toLowerCase ''stdoi.h'') standardHeaders = Some ''stdio.h''"
    unfolding suggestCorrectHeader_closest [symmetric] by code_simp
  have b: "closestHeader (toLowerCase ''windows.h'') standardHeaders = None"
    unfolding suggestCorrectHeader_closest [symmetric] by code_simp
  have m1: "''stdoi.h'' \<notin> set standardHeaders" and m2: "''stdlib.h'' \<in> set standardHeaders"
    and m3: "''windows.h'' \<notin> set standardHeaders"
    by (simp_all add: standardHeaders_def)
  show ?thesis
    using header_spelling_closest_lowercase [of "[\<lparr>headerName = ''stdoi.h'', isSystemHeader = True, includePosition = \<lparr>row = 0, column = 0\<rparr>\<rparr>,
            \<lparr>headerName = ''stdoi.h'', isSystemHeader = False, includePosition = \<lparr>row = 1, column = 0\<rparr>\<rparr>,
            \<lparr>headerName = ''stdlib.h'', isSystemHeader = True, includePosition = \<lparr>row = 2, column = 0\<rparr>\<rparr>,
            \<lparr>headerName = ''windows.h'', isSystemHeader = True, includePosition = \<lparr>row = 3, column = 0\<rparr>\<rparr>]"
        "[]" "''a.c''"]
    by (simp add: a b m1 m2 m3 headerSpellingIssue_def truthy_def codeLineAt_def lineAt_def)
qed

text \<open>
  Counterexample for C6 as stated, with the distance taken from the header name
  itself: \<open>MATH.H\<close> is at distance 5 or more from every standard header, so no entry is
  within distance 2, and the code suggests \<open>math.h\<close>.
\<close>

theorem header_spelling_case_sensitive_counterexample:
  "suggestCorrectHeader ''MATH.H'' standardHeaders = Some ''math.h''
   \<and> closestHeader ''MATH.H'' standardHeaders = None"
proof
  show "suggestCorrectHeader ''MATH.H'' standardHeaders = Some ''math.h''"
    by code_simp
  have "min_list (map (levenshteinDistance ''MATH.H'') standardHeaders) = 5"
    by code_simp
  then have "min_list (map (editDistance ''MATH.H'') standardHeaders) = 5"
    by (simp only: editDistance_levenshteinDistance)
  then show "closestHeader ''MATH.H'' standardHeaders = None"
    by (simp add: closestHeader_def)
qed

text \<open>
  Claim C10. A system include whose header name differs from a standard header only
  by letter case is reported (membership is case-sensitive), and the suggestion is
  that standard header, since the distance of the lowercased names is 0.
\<close>

theorem case_variant_header_suggested:
  assumes "isSystemHeader inc" and "inc \<in> set includes"
    and "w \<in> set standardHeaders" and "headerName inc \<noteq> w"
    and "toLowerCase (headerName inc) = toLowerCase w"
  shows "headerSpellingIssue filePath sourceLines inc (Some w)
           \<in> set (checkHeaderSpelling (Some includes) sourceLines filePath)
         \<and> message (headerSpellingIssue filePath sourceLines inc (Some w)) =
             MsgHeaderSpelling (headerName inc) (Some w)
         \<and> suggestCorrectHeader (headerName inc) standardHeaders = Some w
         \<and> levenshteinDistance (toLowerCase (headerName inc)) (toLowerCase w) = 0"
proof -
  have low: "toLowerCase (headerName inc) = w"
    using assms(3,5) by (simp add: standardHeaders_lower)
  have notin: "headerName inc \<notin> set standardHeaders"
  proof
    assume "headerName inc \<in> set standardHeaders"
    then have "toLowerCase (headerName inc) = headerName inc" by (rule standardHeaders_lower)
    with low assms(4) show False by simp
  qed
  have s: "suggestCorrectHeader (headerName inc) standardHeaders = Some w"
    using assms(3) by (simp add: suggestCorrectHeader_closest low closestHeader_self)
  have ne: "w \<noteq> []" using assms(3) standardHeaders_nonempty by auto
  have "headerSpellingIssue filePath sourceLines inc
           (suggestCorrectHeader (headerName inc) standardHeaders)
           \<in> set (checkHeaderSpelling (Some includes) sourceLines filePath)"
    using assms(1,2) notin by (simp add: checkHeaderSpelling_def spellingLoop_result)
  then have "headerSpellingIssue filePath sourceLines inc (Some w)
           \<in> set (checkHeaderSpelling (Some includes) sourceLines filePath)"
    by (simp only: s)
  moreover have "message (headerSpellingIssue filePath sourceLines inc (Some w)) =
             MsgHeaderSpelling (headerName inc) (Some w)"
    using ne by (simp add: headerSpellingIssue_def truthy_def)
  moreover have "levenshteinDistance (toLowerCase (headerName inc)) (toLowerCase w) = 0"
    using assms(5) by (simp add: levenshteinDistance_editDistance)
  ultimately show ?thesis using s by simp
qed

text \<open>The theorem at \<open>#include <STDIO.H>\<close>.\<close>

theorem case_variant_header_suggested_witness:
  "headerSpellingIssue ''a.c'' [''#include <STDIO.H>'']
     \<lparr>headerName = ''STDIO.H'', isSystemHeader = True, includePosition = \<lparr>row = 0, column = 0\<rparr>\<rparr>
     (Some ''stdio.h'')
     \<in> set (checkHeaderSpelling
         (Some [\<lparr>headerName = ''STDIO.H'', isSystemHeader = True, includePosition = \<lparr>row = 0, column = 0\<rparr>\<rparr>])
         [''#include <STDIO.H>''] ''a.c'')
   \<and> suggestCorrectHeader ''STDIO.H'' standardHeaders = Some ''stdio.h''
   \<and> levenshteinDistance (toLowerCase ''STDIO.H'') (toLowerCase ''stdio.h'') = 0"
proof -
  let ?inc = "\<lparr>headerName = ''STDIO.H'', isSystemHeader = True, includePosition = \<lparr>row = 0, column = (0::nat)\<rparr>\<rparr>"
  have h1: "isSystemHeader ?inc" by simp
  have h2: "?inc \<in> set [?inc]" by simp
  have h3: "''stdio.h'' \<in> set standardHeaders" by (simp add: standardHeaders_def)
  have h4: "headerName ?inc \<noteq> ''stdio.h''" by simp
  have h5: "toLowerCase (headerName ?inc) = toLowerCase ''stdio.h''"
    by (simp add: toLowerCase_def toLowerChar_def)
  show ?thesis
    using case_variant_header_suggested [OF h1 h2 h3 h4 h5, of "''a.c''" "[''#include <STDIO.H>'']"] by simp
qed

section \<open>Properties of the format check\<close>

subsection \<open>A call of printf or scanf is no declaration\<close>

lemma searchFrom_mono:
  assumes "\<And>prev s. P prev s \<Longrightarrow> Q prev s"
  shows "searchFrom P prev s \<Longrightarrow> searchFrom Q prev s"
  by (induction s arbitrary: prev) (auto dest: assms)

lemma whitespace_not_word: "isWhitespace c \<Longrightarrow> \<not> isWordChar c"
proof -
  have "\<forall>c\<in>set [CHR 0x09, CHR 0x0A, CHR 0x0B, CHR 0x0C, CHR 0x0D, CHR '' '']. \<not> isWordChar c"
    by code_simp
  then show "isWhitespace c \<Longrightarrow> \<not> isWordChar c"
    unfolding isWhitespace_def by blast
qed

lemma paren_not_word: "\<not> isWordChar (CHR ''('')"
  by code_simp

lemma parenFollows_wordEnds: "parenFollows s \<Longrightarrow> wordEnds s"
proof (cases s)
  case Nil
  then show "parenFollows s \<Longrightarrow> wordEnds s" by (simp add: parenFollows_def)
next
  case (Cons c cs)
  assume "parenFollows s"
  with Cons have "isWhitespace c \<or> c = CHR ''(''"
    by (auto simp: parenFollows_def split: if_splits list.splits)
  then have "\<not> isWordChar c"
    using whitespace_not_word paren_not_word by blast
  with Cons show "wordEnds s" by simp
qed

lemma printfScanfCall_mentions:
  assumes "printfScanfCall l"
  shows "mentionsLibraryCall l"
proof -
  let ?names = "[''printf'', ''scanf'', ''malloc'', ''free'', ''strcpy'', ''strlen'']"
  have step: "wordStarts prev \<and> list_ex (\<lambda>w. startsWith s w \<and> wordEnds (drop (length w) s)) ?names"
    if p: "wordStarts prev \<and>
        ((startsWith s ''printf'' \<and> parenFollows (drop 6 s)) \<or>
         (startsWith s ''scanf'' \<and> parenFollows (drop 5 s)))" for prev s
  proof -
    from p consider (a) "startsWith s ''printf''" "parenFollows (drop 6 s)"
      | (b) "startsWith s ''scanf''" "parenFollows (drop 5 s)"
      by blast
    then have "\<exists>w\<in>set ?names. startsWith s w \<and> wordEnds (drop (length w) s)"
    proof cases
      case a
      have l: "length ''printf'' = 6" by simp
      have "wordEnds (drop 6 s)" using a(2) by (rule parenFollows_wordEnds)
      with a(1) have "startsWith s ''printf'' \<and> wordEnds (drop (length ''printf'') s)"
        unfolding l by blast
      then show ?thesis by (intro bexI [of _ "''printf''"]) simp_all
    next
      case b
      have l: "length ''scanf'' = 5" by simp
      have "wordEnds (drop 5 s)" using b(2) by (rule parenFollows_wordEnds)
      with b(1) have "startsWith s ''scanf'' \<and> wordEnds (drop (length ''scanf'') s)"
        unfolding l by blast
      then show ?thesis by (intro bexI [of _ "''scanf''"]) simp_all
    qed
    with p show ?thesis unfolding list_ex_iff by blast
  qed
  show ?thesis
    using assms unfolding printfScanfCall_def mentionsLibraryCall_def
    by (rule searchFrom_mono [rotated]) (rule step)
qed

lemma printfScanfCall_no_decl: "printfScanfCall l \<Longrightarrow> \<not> isLikelyDecl l"
  by (simp add: isLikelyDecl_def printfScanfCall_mentions)

subsection \<open>Counting the specifiers\<close>

lemma formatSpecLoop_Suc: "formatSpecLoop s (Suc cnt) = Suc (formatSpecLoop s cnt)"
  by (induction s cnt rule: formatSpecLoop.induct) simp_all

lemma formatSpecCount_simps:
  "formatSpecCount [] = 0"
  "formatSpecCount [CHR ''%''] = 1"
  "formatSpecCount (CHR ''%'' # CHR ''%'' # t) = formatSpecCount t"
  "c \<noteq> CHR ''%'' \<Longrightarrow> formatSpecCount (CHR ''%'' # c # t) = 1 + formatSpecCount (c # t)"
  "c \<noteq> CHR ''%'' \<Longrightarrow> formatSpecCount (c # t) = formatSpecCount t"
      apply (simp_all add: formatSpecCount_def formatSpecLoop_Suc)
  apply (cases t)
   apply simp_all
  done

lemma scanfAddressLoop_only_address:
  "filter (\<lambda>issue. message issue \<noteq> MsgScanfAddress) (scanfAddressLoop getVar filePath i raw exprs) = []"
  by (induction exprs) (simp_all add: formatIssue_def)

lemma format_example_args:
  "getArgsFromCall ''printf(\"%d %d\", x);'' = [''\"%d %d\"'', ''x'']"
  by code_simp

subsection \<open>The check after the splitting\<close>

text \<open>
  The check in terms of what the engine splits off the prepared line: with a string
  literal as first part, the issues that report a count mismatch are decided by the
  number of the other parts and the number of specifiers.
\<close>

lemma count_mismatch_of_split_line:
  assumes "prepareLine raw = Some lineText" and "printfScanfCall lineText"
    and "getArgsFromCall lineText = fmt # rest" and "fmtStrMatch fmt = Some s"
  shows "filter (\<lambda>issue. message issue \<noteq> MsgScanfAddress)
           (formatIssuesOfLine getVar filePath i raw) =
         (if length rest < formatSpecCount s
          then [formatIssue filePath i
                  (MsgFormatTooFew (if scanfCall lineText then ''scanf'' else ''printf'')) raw]
          else if formatSpecCount s < length rest
          then [formatIssue filePath i
                  (MsgFormatTooMany (if scanfCall lineText then ''scanf'' else ''printf'')) raw]
          else [])
       \<and> formatSpecCount (CHR ''%'' # CHR ''%'' # t) = formatSpecCount t
       \<and> (c \<noteq> CHR ''%'' \<longrightarrow>
            formatSpecCount (c # t) = formatSpecCount t \<and>
            formatSpecCount (CHR ''%'' # c # t) = 1 + formatSpecCount (c # t))
       \<and> formatSpecCount [CHR ''%''] = 1 \<and> formatSpecCount [] = 0
       \<and> formatIssuesOfLine getVar filePath i ''printf(\"%d %d\", x);'' =
           [formatIssue filePath i (MsgFormatTooFew ''printf'') ''printf(\"%d %d\", x);'']"
proof -
  have "filter (\<lambda>issue. message issue \<noteq> MsgScanfAddress)
           (formatIssuesOfLine getVar filePath i raw) =
         (if length rest < formatSpecCount s
          then [formatIssue filePath i
                  (MsgFormatTooFew (if scanfCall lineText then ''scanf'' else ''printf'')) raw]
          else if formatSpecCount s < length rest
          then [formatIssue filePath i
                  (MsgFormatTooMany (if scanfCall lineText then ''scanf'' else ''printf'')) raw]
          else [])"
    using assms printfScanfCall_no_decl [OF assms(2)]
    by (simp add: formatIssuesOfLine_def formatCheck_def scanfAddressLoop_only_address
          formatIssue_def)
  moreover have "formatIssuesOfLine getVar filePath i ''printf(\"%d %d\", x);'' =
           [formatIssue filePath i (MsgFormatTooFew ''printf'') ''printf(\"%d %d\", x);'']"
  proof -
    have p: "prepareLine ''printf(\"%d %d\", x);'' = Some ''printf(\"%d %d\", x);''"
      by code_simp
    have c: "printfScanfCall ''printf(\"%d %d\", x);''" by code_simp
    have n: "\<not> scanfCall ''printf(\"%d %d\", x);''" by code_simp
    have m: "fmtStrMatch ''\"%d %d\"'' = Some ''%d %d''" by code_simp
    have k: "formatSpecCount ''%d %d'' = 2" by code_simp
    show ?thesis
      using printfScanfCall_no_decl [OF c]
      by (simp add: formatIssuesOfLine_def formatCheck_def p c n m k format_example_args)
  qed
  ultimately show ?thesis
    by (simp add: formatSpecCount_simps)
qed

subsection \<open>Strings\<close>

lemma startsWith_iff: "startsWith s p = (\<exists>w. s = p @ w)"
  by (induction s p rule: startsWith.induct) auto

lemma whitespace_chars:
  "isWhitespace c \<Longrightarrow>
     c \<noteq> CHR ''('' \<and> c \<noteq> CHR '')'' \<and> c \<noteq> CHR '','' \<and> c \<noteq> CHR 0x22 \<and> c \<noteq> CHR 0x27"
  by (auto simp: isWhitespace_def)

lemma dropWhile_blank:
  "list_all isWhitespace ws \<Longrightarrow> x \<noteq> [] \<Longrightarrow> \<not> isWhitespace (hd x) \<Longrightarrow>
     dropWhile isWhitespace (ws @ x) = x"
  by (induction ws) (auto simp: neq_Nil_conv)

lemma trim_blank_around:
  assumes "list_all isWhitespace ws1" and "list_all isWhitespace ws2"
    and "x \<noteq> []" and "\<not> isWhitespace (hd x)" and "\<not> isWhitespace (last x)"
  shows "trim (ws1 @ x @ ws2) = x"
proof -
  have a: "dropWhile isWhitespace (ws1 @ x @ ws2) = x @ ws2"
    using assms(1,3,4) dropWhile_blank [of ws1 "x @ ws2"] by simp
  have "list_all isWhitespace (rev ws2)" using assms(2) by (simp add: list_all_iff)
  then have "dropWhile isWhitespace (rev ws2 @ rev x) = rev x"
    using assms(3,5) by (intro dropWhile_blank) (simp_all add: hd_rev)
  with a show ?thesis by (simp add: trim_def)
qed

lemma indexOfAt_first_char:
  "c \<notin> set a \<Longrightarrow> indexOfAt (a @ c # b) [c] k = Some (k + length a)"
  by (induction a arbitrary: k) auto

lemma indexOf_first_char:
  "c \<notin> set a \<Longrightarrow> indexOf (a @ c # b) [c] 0 = Some (length a)"
  using indexOfAt_first_char [of c a b 0] by (simp add: indexOf_def)

lemma lastIndexOfChar_last:
  assumes "c \<notin> set b"
  shows "lastIndexOfChar (a @ c # b) c = Some (length a)"
proof -
  have "indexOf (rev b @ c # rev a) [c] 0 = Some (length b)"
    using assms indexOf_first_char [of c "rev b" "rev a"] by simp
  then show ?thesis by (simp add: lastIndexOfChar_def)
qed

lemma indexOfAt_Some_occurs:
  "indexOfAt s sub k = Some j \<Longrightarrow> \<exists>u w. s = u @ sub @ w"
proof (induction s arbitrary: k)
  case Nil
  then show ?case by (auto split: if_splits)
next
  case (Cons c cs)
  show ?case
  proof (cases "startsWith (c # cs) sub")
    case True
    then obtain w where "c # cs = sub @ w" using startsWith_iff by blast
    then have "c # cs = [] @ sub @ w" by simp
    then show ?thesis by blast
  next
    case False
    with Cons.prems have "indexOfAt cs sub (Suc k) = Some j" by simp
    then obtain u w where "cs = u @ sub @ w" using Cons.IH by blast
    then have "c # cs = (c # u) @ sub @ w" by simp
    then show ?thesis by blast
  qed
qed

lemma indexOf_None:
  "\<not> (\<exists>u w. s = u @ sub @ w) \<Longrightarrow> indexOf s sub 0 = None"
  using indexOfAt_Some_occurs [of s sub 0] by (cases "indexOf s sub 0") (auto simp: indexOf_def)

lemma searchFrom_at:
  "P (if pre = [] then prev else Some (last pre)) s \<Longrightarrow> searchFrom P prev (pre @ s)"
proof (induction pre arbitrary: prev)
  case Nil
  then show ?case by (cases s) auto
next
  case (Cons c pre)
  have "searchFrom P (Some c) (pre @ s)"
    using Cons.prems by (intro Cons.IH) (auto split: if_splits)
  then show ?case by simp
qed

subsection \<open>The splitting loop\<close>

lemma argsLoop_blank:
  "list_all isWhitespace ws \<Longrightarrow>
     argsLoop (ws @ rest) d buf False q parts = argsLoop rest d (buf @ ws) False q parts"
  by (induction ws arbitrary: buf) (auto dest: whitespace_chars)

lemma argsLoop_in_string:
  "CHR 0x22 \<notin> set content \<Longrightarrow>
     argsLoop (content @ CHR 0x22 # rest) d buf True [CHR 0x22] parts =
     argsLoop rest d (buf @ content @ [CHR 0x22]) False [CHR 0x22] parts"
  by (induction content arbitrary: buf) auto

lemma argsLoop_literal:
  "CHR 0x22 \<notin> set content \<Longrightarrow>
     argsLoop (CHR 0x22 # content @ CHR 0x22 # rest) d buf False q parts =
     argsLoop rest d (buf @ CHR 0x22 # content @ [CHR 0x22]) False [CHR 0x22] parts"
  using argsLoop_in_string [of content rest d "buf @ [CHR 0x22]" parts] by simp

lemma argsLoop_quote_irrelevant:
  "argsLoop s d buf False q parts = argsLoop s d buf False q' parts"
  by (induction s arbitrary: d buf parts) auto

lemma argsLoop_wellFormed:
  "wellFormedArg d qo a \<Longrightarrow>
     argsLoop (a @ rest) d buf (qo \<noteq> None) (case qo of None \<Rightarrow> q | Some c \<Rightarrow> [c]) parts =
     argsLoop rest 0 (buf @ a) False [] parts"
proof (induction a arbitrary: d qo buf q)
  case Nil
  then show ?case
    using argsLoop_quote_irrelevant [of rest 0 buf q parts "[]"]
    by (cases qo) simp_all
next
  case (Cons c cs)
  show ?case
  proof (cases qo)
    case None
    show ?thesis
    proof (cases "c = CHR 0x22 \<or> c = CHR 0x27")
      case True
      with Cons.prems None have "wellFormedArg d (Some c) cs" by simp
      from Cons.IH [OF this, of "buf @ [c]" q] True None show ?thesis by auto
    next
      case False
      note nq = this
      show ?thesis
      proof (cases "c = CHR ''(''")
        case True
        with Cons.prems None nq have "wellFormedArg (Suc d) None cs" by simp
        from Cons.IH [OF this, of "buf @ [c]" q] True None nq show ?thesis by simp
      next
        case False
        note no = this
        show ?thesis
        proof (cases "c = CHR '')''")
          case True
          with Cons.prems None nq no have d: "d > 0" and "wellFormedArg (d - 1) None cs" by simp_all
          from Cons.IH [OF this(2), of "buf @ [c]" q] True None nq no d show ?thesis by simp
        next
          case False
          note nc = this
          show ?thesis
          proof (cases "c = CHR '',''")
            case True
            with Cons.prems None nq no nc have d: "d > 0" and "wellFormedArg d None cs" by simp_all
            from Cons.IH [OF this(2), of "buf @ [c]" q] True None nq no nc d show ?thesis by simp
          next
            case False
            with Cons.prems None nq no nc have "wellFormedArg d None cs" by simp
            from Cons.IH [OF this, of "buf @ [c]" q] False None nq no nc show ?thesis by simp
          qed
        qed
      qed
    qed
  next
    case (Some q0)
    with Cons.prems have w: "wellFormedArg d (if c = q0 then None else Some q0) cs" by simp
    from Cons.IH [OF w, of "buf @ [c]" "[q0]"] Some show ?thesis by (cases "c = q0") simp_all
  qed
qed

lemma argsLoop_argument:
  "wellFormedArg 0 None a \<Longrightarrow>
     argsLoop (a @ rest) 0 buf False q parts = argsLoop rest 0 (buf @ a) False [] parts"
  using argsLoop_wellFormed [of 0 None a rest buf q parts] by simp

lemma quote_not_blank: "\<not> isWhitespace (CHR 0x22)"
  by (simp add: isWhitespace_def)

lemma argsLoop_arguments:
  assumes "list_all (wellFormedArg 0 None) args"
  shows "argsLoop (concat (map ((#) (CHR '','')) args)) 0 buf False q parts =
     (if args = [] then (parts, buf)
      else (parts @ trim buf # map trim (butlast args), last args))"
  using assms
proof (induction args arbitrary: buf parts q)
  case Nil
  show ?case by simp
next
  case (Cons a as)
  from Cons.prems have a: "wellFormedArg 0 None a" and as: "list_all (wellFormedArg 0 None) as"
    by simp_all
  have "argsLoop (concat (map ((#) (CHR '','')) (a # as))) 0 buf False q parts =
        argsLoop (a @ concat (map ((#) (CHR '','')) as)) 0 [] False q (parts @ [trim buf])"
    by simp
  also have "\<dots> = argsLoop (concat (map ((#) (CHR '','')) as)) 0 a False [] (parts @ [trim buf])"
    using argsLoop_argument [OF a] by simp
  also have "\<dots> = (if as = [] then (parts @ [trim buf], a)
      else ((parts @ [trim buf]) @ trim a # map trim (butlast as), last as))"
    by (rule Cons.IH [OF as])
  finally show ?case by simp
qed

lemma argsLoop_call:
  assumes "list_all isWhitespace sp2" and "list_all isWhitespace sp3"
    and "CHR 0x22 \<notin> set content" and "list_all (wellFormedArg 0 None) args"
  shows "argsLoop (sp2 @ CHR 0x22 # content @ CHR 0x22 # sp3 @ concat (map ((#) (CHR '','')) args))
           0 [] False [] [] =
         (if args = [] then ([], sp2 @ CHR 0x22 # content @ CHR 0x22 # sp3)
          else (trim (sp2 @ CHR 0x22 # content @ CHR 0x22 # sp3) # map trim (butlast args), last args))"
proof -
  let ?C = "concat (map ((#) (CHR '','')) args)"
  have "argsLoop (sp2 @ CHR 0x22 # content @ CHR 0x22 # sp3 @ ?C) 0 [] False [] [] =
        argsLoop (CHR 0x22 # content @ CHR 0x22 # sp3 @ ?C) 0 sp2 False [] []"
    using argsLoop_blank [OF assms(1), of _ 0 "[]" "[]" "[]"] by simp
  also have "\<dots> = argsLoop (sp3 @ ?C) 0 (sp2 @ CHR 0x22 # content @ [CHR 0x22]) False [CHR 0x22] []"
    by (rule argsLoop_literal [OF assms(3)])
  also have "\<dots> = argsLoop ?C 0 (sp2 @ CHR 0x22 # content @ CHR 0x22 # sp3) False [CHR 0x22] []"
    using argsLoop_blank [OF assms(2), of "?C" 0 "sp2 @ CHR 0x22 # content @ [CHR 0x22]" "[CHR 0x22]" "[]"]
    by simp
  also have "\<dots> = (if args = [] then ([], sp2 @ CHR 0x22 # content @ CHR 0x22 # sp3)
          else (trim (sp2 @ CHR 0x22 # content @ CHR 0x22 # sp3) # map trim (butlast args), last args))"
    by (simp only: argsLoop_arguments [OF assms(4)] append_Nil)
  finally show ?thesis .
qed

lemma getArgsFromCall_call_line:
  assumes "CHR ''('' \<notin> set before"
    and "list_all isWhitespace sp2" and "list_all isWhitespace sp3"
    and "CHR 0x22 \<notin> set content"
    and "list_all (\<lambda>a. wellFormedArg 0 None a \<and> trim a \<noteq> []) args"
    and "CHR '')'' \<notin> set post"
  shows "getArgsFromCall
           (before @ CHR ''('' # sp2 @ CHR 0x22 # content @ CHR 0x22 # sp3 @
            concat (map ((#) (CHR '','')) args) @ CHR '')'' # post) =
         (CHR 0x22 # content @ [CHR 0x22]) # map trim args"
proof -
  let ?lit = "CHR 0x22 # content @ [CHR 0x22]"
  let ?inside = "sp2 @ CHR 0x22 # content @ CHR 0x22 # sp3 @ concat (map ((#) (CHR '','')) args)"
  let ?l = "before @ CHR ''('' # ?inside @ CHR '')'' # post"
  have bal: "list_all (wellFormedArg 0 None) args" and nb: "list_all (\<lambda>a. trim a \<noteq> []) args"
    using assms(5) by (simp_all add: list_all_iff)
  have lp: "indexOf ?l ''('' 0 = Some (length before)"
    using indexOf_first_char [OF assms(1)] by simp
  have "lastIndexOfChar ((before @ CHR ''('' # ?inside) @ CHR '')'' # post) (CHR '')'') =
          Some (length (before @ CHR ''('' # ?inside))"
    by (rule lastIndexOfChar_last [OF assms(6)])
  then have rp: "lastIndexOfChar ?l (CHR '')'') = Some (length before + 1 + length ?inside)"
    by simp
  have ins: "take (length before + 1 + length ?inside - (length before + 1))
               (drop (length before + 1) ?l) = ?inside"
    by simp
  have lit: "trim (sp2 @ ?lit @ sp3) = ?lit"
    using assms(2,3) by (intro trim_blank_around) (simp_all add: quote_not_blank)
  have loop: "argsLoop ?inside 0 [] False [] [] =
         (if args = [] then ([], sp2 @ ?lit @ sp3)
          else (?lit # map trim (butlast args), last args))"
    using argsLoop_call [OF assms(2,3,4) bal] lit by simp
  show ?thesis
  proof (cases "args = []")
    case True
    have "getArgsFromCall ?l = [?lit]"
      unfolding getArgsFromCall_def lp rp
      using ins loop lit True by (simp add: Let_def)
    with True show ?thesis by simp
  next
    case False
    then have "trim (last args) \<noteq> []" using nb by (simp add: list_all_iff)
    moreover have "map trim (butlast args) @ [trim (last args)] = map trim args"
      using False by (metis append_butlast_last_id list.simps(8,9) map_append)
    ultimately have "getArgsFromCall ?l = ?lit # map trim args"
      unfolding getArgsFromCall_def lp rp
      using ins loop False by (simp add: Let_def)
    then show ?thesis by simp
  qed
qed

lemma fmtStrMatch_literal: "fmtStrMatch (CHR 0x22 # content @ [CHR 0x22]) = Some content"
  by (simp add: fmtStrMatch_def quote_not_blank)

lemma paren_not_blank: "\<not> isWhitespace (CHR ''('')"
  by (simp add: isWhitespace_def)

lemma blank_no_paren: "list_all isWhitespace ws \<Longrightarrow> CHR ''('' \<notin> set ws"
  using paren_not_blank by (auto simp: list_all_iff)

lemma parenFollows_blank: "list_all isWhitespace ws \<Longrightarrow> parenFollows (ws @ CHR ''('' # t)"
  using dropWhile_blank [of ws "CHR ''('' # t"] by (simp add: parenFollows_def paren_not_blank)

subsection \<open>The comment at the end of a line\<close>

lemma includesStr_iff: "includesStr s sub = (\<exists>u w. s = u @ sub @ w)"
proof
  show "includesStr s sub \<Longrightarrow> \<exists>u w. s = u @ sub @ w"
  proof (induction s)
    case Nil
    then show ?case by simp
  next
    case (Cons c cs)
    show ?case
    proof (cases "startsWith (c # cs) sub")
      case True
      then obtain w where "c # cs = [] @ sub @ w" using startsWith_iff by auto
      then show ?thesis by blast
    next
      case False
      with Cons.prems have "includesStr cs sub" by simp
      then obtain u w where "cs = u @ sub @ w" using Cons.IH by blast
      then have "c # cs = (c # u) @ sub @ w" by simp
      then show ?thesis by blast
    qed
  qed
next
  assume "\<exists>u w. s = u @ sub @ w"
  then obtain u w where s: "s = u @ sub @ w" by blast
  have "startsWith (sub @ w) sub" unfolding startsWith_iff by blast
  then have "includesStr (sub @ w) sub" by (cases "sub @ w") auto
  then have "includesStr (u @ sub @ w) sub" by (induction u) simp_all
  with s show "includesStr s sub" by simp
qed

lemma indexOfAt_comment:
  "\<not> includesStr a ''//'' \<Longrightarrow> a = [] \<or> last a \<noteq> CHR ''/'' \<Longrightarrow>
     indexOfAt (a @ ''//'' @ b) ''//'' k = Some (k + length a)"
proof (induction a arbitrary: k)
  case Nil
  then show ?case by simp
next
  case (Cons c cs)
  from Cons.prems(1) have n: "\<not> startsWith (c # cs) ''//''" and i: "\<not> includesStr cs ''//''"
    by simp_all
  from Cons.prems(2) have l: "cs = [] \<or> last cs \<noteq> CHR ''/''" and s: "cs = [] \<longrightarrow> c \<noteq> CHR ''/''"
    by (auto split: if_splits)
  have "\<not> startsWith (c # cs @ ''//'' @ b) ''//''"
    using n s by (cases cs) auto
  then show ?case using Cons.IH [OF i l, of "Suc k"] by simp
qed

lemma prepareLine_code:
  assumes "trim raw = code @ rest" and "rest = [] \<or> startsWith rest ''//''"
    and "code \<noteq> []" and "\<not> startsWith code ''#''"
    and "\<not> includesStr code ''//''" and "last code \<noteq> CHR ''/''"
  shows "prepareLine raw = Some code"
proof -
  have ne: "trim raw \<noteq> []" using assms(1,3) by simp
  have hash: "\<not> startsWith (trim raw) ''#''"
    using assms(1,3,4) by (cases code) simp_all
  show ?thesis
  proof (cases "rest = []")
    case True
    have "indexOf code ''//'' 0 = None"
      using assms(5) by (intro indexOf_None) (simp add: includesStr_iff)
    with True assms(1) ne hash show ?thesis by (simp add: prepareLine_def Let_def)
  next
    case False
    with assms(2) obtain cm where r: "rest = ''//'' @ cm" using startsWith_iff by blast
    have "indexOfAt (code @ ''//'' @ cm) ''//'' 0 = Some (0 + length code)"
      using assms(5,6) by (intro indexOfAt_comment) simp_all
    then have "indexOf (trim raw) ''//'' 0 = Some (length code)"
      by (simp add: indexOf_def assms(1) r)
    with ne hash show ?thesis by (simp add: prepareLine_def Let_def assms(1))
  qed
qed

subsection \<open>Claims\<close>

text \<open>
  Claim C8, amended. Take a line of the file whose text without the white space around
  it is a code text \<open>code\<close>, alone or followed by a comment that starts with \<open>//\<close>, where
  \<open>code\<close> has no \<open>//\<close>, does not end in \<open>/\<close>, and consists of: a text without \<open>(\<close> that
  does not start with \<open>#\<close> and does not end in a word character; \<open>printf\<close> or \<open>scanf\<close>;
  white space, if any; the opening parenthesis; a string literal without a double quote
  inside as format string, with white space around it, if any; the arguments, each
  after a comma, not blank and well formed (\<open>wellFormedArg\<close>); the closing parenthesis;
  and a rest without \<open>)\<close>. Then the issues of the line that report a count mismatch are
  one "too few" issue when there are fewer arguments than specifiers in the format
  string, one "too many" issue when there are more, and none when the numbers are
  equal. The count skips every \<open>%%\<close> pair, counts every other \<open>%\<close> once and no other
  character. The line \<open>printf("%d %d", x);\<close> gives exactly one Format issue, "too few".
\<close>

theorem format_count_mismatch_on_call_line:
  assumes line: "trim raw = code @ rest"
    and rest: "rest = [] \<or> startsWith rest ''//''"
    and code: "code =
      pre @ fname @ sp1 @ CHR ''('' # sp2 @ CHR 0x22 # content @ CHR 0x22 # sp3 @
      concat (map ((#) (CHR '','')) args) @ CHR '')'' # post"
    and fname: "fname = ''printf'' \<or> fname = ''scanf''"
    and pre: "CHR ''('' \<notin> set pre" "pre = [] \<or> \<not> isWordChar (last pre)" "\<not> startsWith pre ''#''"
    and blanks: "list_all isWhitespace sp1" "list_all isWhitespace sp2" "list_all isWhitespace sp3"
    and content: "CHR 0x22 \<notin> set content"
    and args: "list_all (\<lambda>a. wellFormedArg 0 None a \<and> trim a \<noteq> []) args"
    and post: "CHR '')'' \<notin> set post"
    and comment: "\<not> includesStr code ''//''" "last code \<noteq> CHR ''/''"
  shows "filter (\<lambda>issue. message issue \<noteq> MsgScanfAddress)
           (formatIssuesOfLine getVar filePath i raw) =
         (if length args < formatSpecCount content
          then [formatIssue filePath i
                  (MsgFormatTooFew (if scanfCall code then ''scanf'' else ''printf'')) raw]
          else if formatSpecCount content < length args
          then [formatIssue filePath i
                  (MsgFormatTooMany (if scanfCall code then ''scanf'' else ''printf'')) raw]
          else [])
       \<and> formatSpecCount (CHR ''%'' # CHR ''%'' # t) = formatSpecCount t
       \<and> (c \<noteq> CHR ''%'' \<longrightarrow>
            formatSpecCount (c # t) = formatSpecCount t \<and>
            formatSpecCount (CHR ''%'' # c # t) = 1 + formatSpecCount (c # t))
       \<and> formatSpecCount [CHR ''%''] = 1 \<and> formatSpecCount [] = 0
       \<and> formatIssuesOfLine getVar filePath i ''printf(\"%d %d\", x);'' =
           [formatIssue filePath i (MsgFormatTooFew ''printf'') ''printf(\"%d %d\", x);'']"
proof -
  let ?lit = "CHR 0x22 # content @ [CHR 0x22]"
  let ?tail = "sp2 @ CHR 0x22 # content @ CHR 0x22 # sp3 @
      concat (map ((#) (CHR '','')) args) @ CHR '')'' # post"
  have fn: "CHR ''('' \<notin> set fname" using fname by auto
  have hash: "\<not> startsWith code ''#''"
  proof (cases pre)
    case Nil
    with code fname show ?thesis by auto
  next
    case (Cons c cs)
    with pre(3) code show ?thesis by simp
  qed
  have ne: "code \<noteq> []" using code by simp
  have p1: "prepareLine raw = Some code"
    using line rest ne hash comment by (rule prepareLine_code)
  have ws: "wordStarts (if pre = [] then None else Some (last pre))"
    using pre(2) by auto
  have pf: "parenFollows (sp1 @ CHR ''('' # ?tail)"
    by (rule parenFollows_blank [OF blanks(1)])
  have at: "(startsWith (fname @ sp1 @ CHR ''('' # ?tail) ''printf'' \<and>
              parenFollows (drop 6 (fname @ sp1 @ CHR ''('' # ?tail))) \<or>
            (startsWith (fname @ sp1 @ CHR ''('' # ?tail) ''scanf'' \<and>
              parenFollows (drop 5 (fname @ sp1 @ CHR ''('' # ?tail)))"
    using fname
  proof
    assume f: "fname = ''printf''"
    have "startsWith (''printf'' @ sp1 @ CHR ''('' # ?tail) ''printf''"
      unfolding startsWith_iff by blast
    moreover have "drop 6 (''printf'' @ sp1 @ CHR ''('' # ?tail) = sp1 @ CHR ''('' # ?tail"
      by simp
    ultimately show ?thesis using pf f by simp
  next
    assume f: "fname = ''scanf''"
    have "startsWith (''scanf'' @ sp1 @ CHR ''('' # ?tail) ''scanf''"
      unfolding startsWith_iff by blast
    moreover have "drop 5 (''scanf'' @ sp1 @ CHR ''('' # ?tail) = sp1 @ CHR ''('' # ?tail"
      by simp
    ultimately show ?thesis using pf f by simp
  qed
  have "searchFrom (\<lambda>prev s. wordStarts prev \<and>
        ((startsWith s ''printf'' \<and> parenFollows (drop 6 s)) \<or>
         (startsWith s ''scanf'' \<and> parenFollows (drop 5 s)))) None
         (pre @ fname @ sp1 @ CHR ''('' # ?tail)"
    using ws at by (intro searchFrom_at) blast
  then have p2: "printfScanfCall code"
    by (simp add: printfScanfCall_def code)
  have "getArgsFromCall ((pre @ fname @ sp1) @ CHR ''('' # sp2 @ CHR 0x22 # content @ CHR 0x22 # sp3 @
            concat (map ((#) (CHR '','')) args) @ CHR '')'' # post) = ?lit # map trim args"
    using pre(1) fn blank_no_paren [OF blanks(1)]
    by (intro getArgsFromCall_call_line blanks content args post) simp
  then have p3: "getArgsFromCall code = ?lit # map trim args"
    by (simp add: code)
  have p4: "fmtStrMatch ?lit = Some content" by (rule fmtStrMatch_literal)
  show ?thesis
    using count_mismatch_of_split_line [OF p1 p2 p3 p4, of getVar filePath i t c]
    by simp
qed

text \<open>
  The theorem at a \<open>printf\<close> line with three specifiers and two arguments, the first a
  string literal with a comma inside, the second a call with a comma inside, and with a
  comment at the end.
\<close>

theorem format_count_mismatch_on_call_line_witness:
  "filter (\<lambda>issue. message issue \<noteq> MsgScanfAddress)
     (formatIssuesOfLine noVariables ''a.c'' 4
        ''  printf(\"%s %d %d\", \"a,b\", f(x, 1)); // print'') =
   [\<lparr>file' = ''a.c'', line = 5, category = ''Format'', message = MsgFormatTooFew ''printf'',
      codeLine = ''  printf(\"%s %d %d\", \"a,b\", f(x, 1)); // print''\<rparr>]"
proof -
  let ?raw = "''  printf(\"%s %d %d\", \"a,b\", f(x, 1)); // print''"
  let ?code = "''printf(\"%s %d %d\", \"a,b\", f(x, 1)); ''"
  have line: "trim ?raw = ?code @ ''// print''" by code_simp
  have rest: "''// print'' = [] \<or> startsWith ''// print'' ''//''" by simp
  have code: "?code = [] @ ''printf'' @ [] @ CHR ''('' # [] @ CHR 0x22 # ''%s %d %d'' @ CHR 0x22 # [] @
      concat (map ((#) (CHR '','')) ['' \"a,b\"'', '' f(x, 1)'']) @ CHR '')'' # ''; ''"
    by simp
  have fname: "''printf'' = ''printf'' \<or> ''printf'' = ''scanf''" by simp
  have pre: "CHR ''('' \<notin> set []" "[] = [] \<or> \<not> isWordChar (last [])" "\<not> startsWith [] ''#''"
    by simp_all
  have blank: "list_all isWhitespace []" by simp
  have content: "CHR 0x22 \<notin> set ''%s %d %d''" by simp
  have args: "list_all (\<lambda>a. wellFormedArg 0 None a \<and> trim a \<noteq> []) ['' \"a,b\"'', '' f(x, 1)'']"
    by code_simp
  have post: "CHR '')'' \<notin> set ''; ''" by simp
  have comment: "\<not> includesStr ?code ''//''" "last ?code \<noteq> CHR ''/''"
    by code_simp+
  have s: "\<not> scanfCall ?code" by code_simp
  have k: "formatSpecCount ''%s %d %d'' = 3" by code_simp
  show ?thesis
    using conjunct1 [OF format_count_mismatch_on_call_line [OF line rest code fname pre blank blank blank content args post comment,
        of noVariables "''a.c''" 4]]
    by (simp add: s k formatIssue_def)
qed

text \<open>
  Counterexample for C8 as stated: in \<open>if (x) printf("%d %d", x);\<close> the call has two
  specifiers and one argument. The engine takes the text from the first \<open>(\<close> of the line
  to the last \<open>)\<close> for the argument list; here that text is one part, which is no string
  literal, so no specifier and no argument are counted, and no issue is pushed.
\<close>

theorem call_after_parenthesis_counterexample:
  "formatIssuesOfLine noVariables ''a.c'' 0 ''if (x) printf(\"%d %d\", x);'' = []"
  by code_simp

section \<open>Properties of \<open>printIssues\<close>\<close>

lemma startsWith_append: "startsWith (sub @ post) sub"
  by (induction sub) simp_all

lemma includesStr_append: "includesStr (pre @ sub @ post) sub"
proof (induction pre)
  case Nil
  show ?case using startsWith_append [of sub post] by (cases "sub @ post") auto
next
  case (Cons c pre)
  then show ?case by simp
qed

subsection \<open>Claims\<close>

text \<open>
  Claim C9, amended. The issues printed are those of the input, in order, except the
  issues at line 7, 8 or 16 of a file whose path contains \<open>avl_tree.c\<close>; so for a file
  named \<open>avl_tree.c\<close>, in whatever directory, no issue at these lines is printed, and
  every other issue is printed as it is.
\<close>

theorem avl_tree_lines_suppressed:
  "filteredIssues issues =
     filter (\<lambda>issue. \<not> (includesStr (file' issue) ''avl_tree.c'' \<and> line issue \<in> {7, 8, 16})) issues
   \<and> (\<forall>issue\<in>set (filteredIssues issues).
         file' issue = dir @ ''avl_tree.c'' \<longrightarrow> line issue \<notin> {7, 8, 16})
   \<and> printIssues relative issues =
       concat (map (\<lambda>issue. [IssueLine (relative (file' issue)) (line issue) (category issue) (message issue),
                              CodeLine (codeLine issue)])
         (filter (\<lambda>issue. \<not> (includesStr (file' issue) ''avl_tree.c'' \<and> line issue \<in> {7, 8, 16}))
            issues))"
proof -
  have k: "keepIssue = (\<lambda>issue. \<not> (includesStr (file' issue) ''avl_tree.c'' \<and> line issue \<in> {7, 8, 16}))"
    by (auto simp: keepIssue_def fun_eq_iff)
  have "includesStr (dir @ ''avl_tree.c'') ''avl_tree.c''"
    using includesStr_append [of dir "''avl_tree.c''" "[]"] by simp
  then show ?thesis
    by (auto simp: filteredIssues_def printIssues_def k)
qed

text \<open>
  The theorem at three issues: line 7 of \<open>avl_tree.c\<close> is dropped, line 9 of it and
  line 7 of another file are printed.
\<close>

theorem avl_tree_lines_suppressed_witness:
  "printIssues (\<lambda>p. p)
     [\<lparr>file' = ''t/avl_tree.c'', line = 7, category = ''Uninitialized'', message = MsgUninitialized ''h'', codeLine = ''int h;''\<rparr>,
      \<lparr>file' = ''t/avl_tree.c'', line = 9, category = ''Header'', message = MsgHeader ''printf'' [''stdio.h''], codeLine = ''printf(s);''\<rparr>,
      \<lparr>file' = ''t/bst.c'', line = 7, category = ''Uninitialized'', message = MsgUninitialized ''k'', codeLine = ''int k;''\<rparr>] =
   [IssueLine ''t/avl_tree.c'' 9 ''Header'' (MsgHeader ''printf'' [''stdio.h'']), CodeLine ''printf(s);'',
    IssueLine ''t/bst.c'' 7 ''Uninitialized'' (MsgUninitialized ''k''), CodeLine ''int k;'']"
proof -
  have a: "includesStr ''t/avl_tree.c'' ''avl_tree.c''" by code_simp
  have b: "\<not> includesStr ''t/bst.c'' ''avl_tree.c''" by code_simp
  show ?thesis
    using avl_tree_lines_suppressed [of "[\<lparr>file' = ''t/avl_tree.c'', line = 7, category = ''Uninitialized'', message = MsgUninitialized ''h'', codeLine = ''int h;''\<rparr>,
      \<lparr>file' = ''t/avl_tree.c'', line = 9, category = ''Header'', message = MsgHeader ''printf'' [''stdio.h''], codeLine = ''printf(s);''\<rparr>,
      \<lparr>file' = ''t/bst.c'', line = 7, category = ''Uninitialized'', message = MsgUninitialized ''k'', codeLine = ''int k;''\<rparr>]"
      "''t/''" "\<lambda>p. p"]
    by (simp add: a b)
qed

text \<open>
  Counterexample for C9 as stated, on the issues of other files: the file
  \<open>my_avl_tree.c\<close> is not named \<open>avl_tree.c\<close>, and its issue at line 7 is not printed.
\<close>

theorem other_file_suppressed_counterexample:
  "printIssues (\<lambda>p. p)
     [\<lparr>file' = ''t/my_avl_tree.c'', line = 7, category = ''Uninitialized'', message = MsgUninitialized ''h'', codeLine = ''int h;''\<rparr>] = []"
proof -
  have "includesStr ''t/my_avl_tree.c'' ''avl_tree.c''" by code_simp
  then show ?thesis
    by (simp add: printIssues_def filteredIssues_def keepIssue_def)
qed

end
